theory Spec2Isabelle
  imports Complex_Main "HOL-Library.Word"
begin

unbundle bit_operations_syntax

section \<open>The cmark command line driver with Lua filters (src/main.c)\<close>

text \<open>
  The program is one C file: \<^verbatim>\<open>print_usage\<close>, \<^verbatim>\<open>print_document\<close> and \<^verbatim>\<open>main\<close>.
  Everything else it calls lives in libraries: the C library (\<^verbatim>\<open>strtol\<close>, \<^verbatim>\<open>fopen\<close>,
  \<^verbatim>\<open>fread\<close>), libcmark (parser and renderers) and the Lua runtime. Those are taken as
  parameters, collected in the record \<open>world\<close>; \<^verbatim>\<open>main\<close> is embedded as a function
  from a world and a command line to the list of library calls it makes (its trace) and
  the way the process ends.

  The macros \<^verbatim>\<open>start_timer\<close> and \<^verbatim>\<open>end_timer\<close> come from \<^verbatim>\<open>bench.h\<close> and expand to
  nothing unless the build defines \<^verbatim>\<open>TIMER\<close>; the \<^verbatim>\<open>_setmode\<close> call exists on Windows
  only. Neither is part of the model. \<^verbatim>\<open>malloc\<close> and \<^verbatim>\<open>luaL_newstate\<close> are taken to
  succeed.
\<close>

subsection \<open>Data\<close>

datatype writer_format =
    FORMAT_NONE
  | FORMAT_HTML
  | FORMAT_XML
  | FORMAT_MAN
  | FORMAT_COMMONMARK
  | FORMAT_LATEX

text \<open>
  What \<^verbatim>\<open>lua_isnumber\<close> and \<^verbatim>\<open>lua_tonumber\<close> report about a Lua value: \<open>Numeric x\<close>
  is a value that \<^verbatim>\<open>lua_isnumber\<close> accepts (a number, or a string that converts to one)
  and that \<^verbatim>\<open>lua_tonumber\<close> reads as \<open>x\<close>; \<open>NonNumeric\<close> is any other value (nil, a
  boolean, a table, ...), for which \<^verbatim>\<open>lua_tonumber\<close> gives 0. A \<^verbatim>\<open>lua_Number\<close> is read
  as a real; the only operation of \<^verbatim>\<open>main\<close> on it is the comparison with \<open>-1\<close>.
\<close>

datatype lua_value = Numeric real | NonNumeric

definition lua_isnumber :: "lua_value \<Rightarrow> bool" where
  "lua_isnumber v = (case v of Numeric x \<Rightarrow> True | NonNumeric \<Rightarrow> False)"

definition lua_tonumber :: "lua_value \<Rightarrow> real" where
  "lua_tonumber v = (case v of Numeric x \<Rightarrow> x | NonNumeric \<Rightarrow> 0)"

text \<open>The result of \<^verbatim>\<open>lua_pcall(L, 2, 1, 0)\<close> on a filter function.\<close>

record 'd invocation =
  call_status :: int          \<comment> \<open>the value \<^verbatim>\<open>lua_pcall\<close> returns; 0 is success\<close>
  call_message :: string      \<comment> \<open>\<^verbatim>\<open>lua_tostring(L, -1)\<close> when the call raised\<close>
  tree_after :: 'd            \<comment> \<open>the document tree as the filter left it\<close>
  returned :: lua_value       \<comment> \<open>the value on top of the stack when the call returned\<close>

text \<open>
  The libraries and the operating system. \<open>'d\<close> is the content of a document tree.
  The tree is mutated in place by the filters; the model passes its content along.
\<close>

record 'd world =
  CMARK_VERSION_STRING :: string
  CMARK_OPT_DEFAULT :: "32 word"
  CMARK_OPT_SOURCEPOS :: "32 word"
  CMARK_OPT_HARDBREAKS :: "32 word"
  CMARK_OPT_SMART :: "32 word"
  CMARK_OPT_SAFE :: "32 word"
  CMARK_OPT_NORMALIZE :: "32 word"
  CMARK_OPT_VALIDATE_UTF8 :: "32 word"
  strtol :: "string \<Rightarrow> int \<times> string"
    \<comment> \<open>\<^verbatim>\<open>strtol(s, &unparsed, 10)\<close>: the \<^verbatim>\<open>long\<close> it returns and the rest it leaves\<close>
  fopen :: "string \<Rightarrow> string + string"
    \<comment> \<open>\<open>Inr\<close> the bytes of the file, \<open>Inl\<close> the text of \<^verbatim>\<open>strerror(errno)\<close>\<close>
  stdin :: string
  cmark_parser_finish :: "32 word \<Rightarrow> string list \<Rightarrow> 'd"
    \<comment> \<open>the tree of a parser created with these options and fed these chunks\<close>
  luaL_loadfile :: "string \<Rightarrow> int"
  chunk_pcall :: "string \<Rightarrow> int"
    \<comment> \<open>\<^verbatim>\<open>lua_pcall(L, 0, 1, 0)\<close> on the chunk loaded from the file\<close>
  load_message :: "string \<Rightarrow> string"
    \<comment> \<open>\<^verbatim>\<open>lua_tostring(L, -1)\<close> after either of the two failed\<close>
  filter_pcall :: "string \<Rightarrow> 'd \<Rightarrow> string \<Rightarrow> 'd invocation"
    \<comment> \<open>\<^verbatim>\<open>lua_pcall(L, 2, 1, 0)\<close> on what the chunk returned, with tree and format pushed\<close>
  cmark_render_html :: "'d \<Rightarrow> 32 word \<Rightarrow> string"
  cmark_render_xml :: "'d \<Rightarrow> 32 word \<Rightarrow> string"
  cmark_render_man :: "'d \<Rightarrow> 32 word \<Rightarrow> int \<Rightarrow> string"
  cmark_render_commonmark :: "'d \<Rightarrow> 32 word \<Rightarrow> int \<Rightarrow> string"
  cmark_render_latex :: "'d \<Rightarrow> 32 word \<Rightarrow> int \<Rightarrow> string"

text \<open>The calls \<^verbatim>\<open>main\<close> makes, in the order it makes them.\<close>

datatype 'd event =
    Stdout string                      \<comment> \<open>\<^verbatim>\<open>printf\<close>, with the text written\<close>
  | Stderr string                      \<comment> \<open>\<^verbatim>\<open>fprintf(stderr, ...)\<close>\<close>
  | Cmark_parser_new "32 word"
  | Fopen string
  | Cmark_parser_feed string
  | Fclose string
  | Cmark_parser_finish 'd             \<comment> \<open>with the tree it returns\<close>
  | Cmark_parser_free
  | LuaL_newstate
  | LuaL_openlibs
  | LuaL_requiref string
  | LuaL_loadfile string int           \<comment> \<open>with the status it returns\<close>
  | Lua_pcall nat nat int              \<comment> \<open>\<^verbatim>\<open>nargs\<close>, \<^verbatim>\<open>nresults\<close>, and the status\<close>
  | Push_cmark_node 'd
  | Lua_pushstring string
  | Lua_isnumber lua_value             \<comment> \<open>with the value at the top of the stack\<close>
  | Lua_close
  | Cmark_render_html 'd "32 word"
  | Cmark_render_xml 'd "32 word"
  | Cmark_render_man 'd "32 word" int
  | Cmark_render_commonmark 'd "32 word" int
  | Cmark_render_latex 'd "32 word" int
  | Free_result
  | Cmark_node_free 'd
  | Free_files
  | Free_luafiles

text \<open>
  How a run ends: \<open>Exit n\<close> for \<^verbatim>\<open>exit(n)\<close> and for \<^verbatim>\<open>return n\<close> from \<^verbatim>\<open>main\<close>;
  \<open>Undefined\<close> when the run stores outside an array or reads a cell that was never
  written, after which C promises nothing.
\<close>

datatype outcome = Exit int | Undefined

text \<open>
  The local variables of \<^verbatim>\<open>main\<close> that outlive the argument loop. \<open>files\<close> and
  \<open>luafiles\<close> are the two \<^verbatim>\<open>malloc\<close>ed arrays of \<^verbatim>\<open>argc\<close> ints; a cell that was never
  written is \<open>None\<close>.
\<close>

record locals =
  numfps :: int
  numluafps :: int
  files :: "int option list"
  luafiles :: "int option list"
  width :: int
  writer :: writer_format
  options :: "32 word"
  format :: string

subsection \<open>Arrays\<close>

definition store :: "int option list \<Rightarrow> int \<Rightarrow> int \<Rightarrow> int option list option" where
  "store a k v = (if 0 \<le> k \<and> k < int (length a) then Some (a[nat k := Some v]) else None)"

definition fetch :: "int option list \<Rightarrow> int \<Rightarrow> int option" where
  "fetch a k = (if 0 \<le> k \<and> k < int (length a) then a ! nat k else None)"

definition argv_at :: "string list \<Rightarrow> int \<Rightarrow> string option" where
  "argv_at argv j = (if 0 \<le> j \<and> j < int (length argv) then Some (argv ! nat j) else None)"

text \<open>The cast \<^verbatim>\<open>(int)\<close> of a \<^verbatim>\<open>long\<close>: the low 32 bits, read as two's complement.\<close>

definition int_of_long :: "int \<Rightarrow> int" where
  "int_of_long v = sint (word_of_int v :: 32 word)"

subsection \<open>\<^verbatim>\<open>print_usage\<close> (lines 31 to 44)\<close>

definition print_usage :: "'d event list" where
  "print_usage =
    [Stdout ''Usage:   cmark [FILE*]\<newline>'',
     Stdout ''Options:\<newline>'',
     Stdout ''  --to, -t FORMAT  Specify output format (html, xml, man, commonmark, latex)\<newline>'',
     Stdout ''  --width WIDTH    Specify wrap width (default 0 = nowrap)\<newline>'',
     Stdout ''  --sourcepos      Include source position attribute\<newline>'',
     Stdout ''  --hardbreaks     Treat newlines as hard line breaks\<newline>'',
     Stdout ''  --safe           Suppress raw HTML and dangerous URLs\<newline>'',
     Stdout ''  --smart          Use smart punctuation\<newline>'',
     Stdout ''  --normalize      Consolidate adjacent text nodes\<newline>'',
     Stdout ''  --help, -h       Print usage information\<newline>'',
     Stdout ''  --version        Print version\<newline>'']"

subsection \<open>\<^verbatim>\<open>print_document\<close> (lines 46 to 72)\<close>

text \<open>
  The result is the trace and, when the function calls \<^verbatim>\<open>exit\<close>, the outcome. The
  \<^verbatim>\<open>default\<close> branch is taken by \<open>FORMAT_NONE\<close> alone, whose number is 0.
\<close>

definition print_document ::
  "'d world \<Rightarrow> 'd \<Rightarrow> writer_format \<Rightarrow> 32 word \<Rightarrow> int \<Rightarrow> 'd event list \<times> outcome option" where
  "print_document w document wr opts wd =
    (case wr of
       FORMAT_HTML \<Rightarrow>
         ([Cmark_render_html document opts,
           Stdout (cmark_render_html w document opts), Free_result], None)
     | FORMAT_XML \<Rightarrow>
         ([Cmark_render_xml document opts,
           Stdout (cmark_render_xml w document opts), Free_result], None)
     | FORMAT_MAN \<Rightarrow>
         ([Cmark_render_man document opts wd,
           Stdout (cmark_render_man w document opts wd), Free_result], None)
     | FORMAT_COMMONMARK \<Rightarrow>
         ([Cmark_render_commonmark document opts wd,
           Stdout (cmark_render_commonmark w document opts wd), Free_result], None)
     | FORMAT_LATEX \<Rightarrow>
         ([Cmark_render_latex document opts wd,
           Stdout (cmark_render_latex w document opts wd), Free_result], None)
     | FORMAT_NONE \<Rightarrow>
         ([Stderr ''Unknown format 0\<newline>''], Some (Exit 1)))"

subsection \<open>The argument loop (lines 98 to 167)\<close>

text \<open>
  One pass through the body of the loop at index \<open>i\<close>: either the process ends
  (\<open>Stop\<close>), or the body ends with a new value of \<open>i\<close> and of the locals (\<open>Next\<close>),
  and the loop header then increments \<open>i\<close>.
\<close>

datatype 'd step = Stop "'d event list" outcome | Next nat locals

definition arg_step :: "'d world \<Rightarrow> string list \<Rightarrow> nat \<Rightarrow> locals \<Rightarrow> 'd step" where
  "arg_step w argv i s =
    (let a = argv ! i; argc = length argv in
     if a = ''--version'' then
       Stop [Stdout (''cmark '' @ CMARK_VERSION_STRING w),
             Stdout '' - CommonMark converter\<newline>(C) 2014, 2015 John MacFarlane\<newline>'']
            (Exit 0)
     else if a = ''--sourcepos'' then
       Next i (s\<lparr>options := options s OR CMARK_OPT_SOURCEPOS w\<rparr>)
     else if a = ''--hardbreaks'' then
       Next i (s\<lparr>options := options s OR CMARK_OPT_HARDBREAKS w\<rparr>)
     else if a = ''--smart'' then
       Next i (s\<lparr>options := options s OR CMARK_OPT_SMART w\<rparr>)
     else if a = ''--safe'' then
       Next i (s\<lparr>options := options s OR CMARK_OPT_SAFE w\<rparr>)
     else if a = ''--normalize'' then
       Next i (s\<lparr>options := options s OR CMARK_OPT_NORMALIZE w\<rparr>)
     else if a = ''--validate-utf8'' then
       Next i (s\<lparr>options := options s OR CMARK_OPT_VALIDATE_UTF8 w\<rparr>)
     else if a = ''--lua'' then
       (if i + 1 < argc then
          (case store (luafiles s) (numluafps s) (int (i + 1)) of
             None \<Rightarrow> Stop [] Undefined
           | Some arr \<Rightarrow> Next (i + 1) (s\<lparr>luafiles := arr, numluafps := numluafps s + 1\<rparr>))
        else Stop [Stderr ''No --lua file specified\<newline>''] (Exit 1))
     else if a = ''--help'' \<or> a = ''-h'' then
       Stop print_usage (Exit 0)
     else if a = ''--width'' then
       (if i + 1 < argc then
          (let (v, unparsed) = strtol w (argv ! (i + 1));
               s' = s\<lparr>width := int_of_long v\<rparr>
           in if unparsed \<noteq> [] then
                Stop [Stderr (''failed parsing width '' @ [CHR 0x27] @ argv ! (i + 1)
                              @ [CHR 0x27] @ '' at '' @ [CHR 0x27] @ unparsed
                              @ [CHR 0x27] @ ''\<newline>'')]
                     (Exit 1)
              else Next (i + 1) s')
        else Stop [Stderr ''--width requires an argument\<newline>''] (Exit 1))
     else if a = ''-t'' \<or> a = ''--to'' then
       (if i + 1 < argc then
          (let f = argv ! (i + 1); s' = s\<lparr>format := f\<rparr> in
           if f = ''man'' then Next (i + 1) (s'\<lparr>writer := FORMAT_MAN\<rparr>)
           else if f = ''html'' then Next (i + 1) (s'\<lparr>writer := FORMAT_HTML\<rparr>)
           else if f = ''xml'' then Next (i + 1) (s'\<lparr>writer := FORMAT_XML\<rparr>)
           else if f = ''commonmark'' then Next (i + 1) (s'\<lparr>writer := FORMAT_COMMONMARK\<rparr>)
           else if f = ''latex'' then Next (i + 1) (s'\<lparr>writer := FORMAT_LATEX\<rparr>)
           else Stop [Stderr (''Unknown format '' @ f @ ''\<newline>'')] (Exit 1))
        else Stop [Stderr (''No argument provided for '' @ a @ ''\<newline>'')] (Exit 1))
     else if a \<noteq> [] \<and> hd a = CHR ''-'' then
       Stop print_usage (Exit 1)
     else
       (case store (files s) (numfps s) (int i) of
          None \<Rightarrow> Stop [] Undefined
        | Some arr \<Rightarrow> Next i (s\<lparr>files := arr, numfps := numfps s + 1\<rparr>)))"

function parse_args ::
  "'d world \<Rightarrow> string list \<Rightarrow> nat \<Rightarrow> locals \<Rightarrow> 'd event list \<times> (outcome + locals)" where
  "parse_args w argv i s =
    (if i < length argv then
       (case arg_step w argv i s of
          Stop es oc \<Rightarrow> (es, Inl oc)
        | Next i' s' \<Rightarrow> parse_args w argv (i' + 1) s')
     else ([], Inr s))"
  by pat_completeness auto
termination
  by (relation "measure (\<lambda>(w, argv, i, s). length argv - i)")
     (auto simp: arg_step_def Let_def split: if_splits option.splits prod.splits)

declare parse_args.simps [simp del]

text \<open>
  The locals as line 75 to 89 leave them. Line 75 reads
  \<^verbatim>\<open>int i, numfps, numluafps = 0;\<close>: the initialiser belongs to \<^verbatim>\<open>numluafps\<close> alone,
  and \<^verbatim>\<open>numfps\<close> starts with whatever its storage holds. That value is the
  parameter \<open>garbage\<close>.
\<close>

definition initial_locals :: "'d world \<Rightarrow> int \<Rightarrow> string list \<Rightarrow> locals" where
  "initial_locals w garbage argv =
    \<lparr>numfps = garbage, numluafps = 0,
     files = replicate (length argv) None, luafiles = replicate (length argv) None,
     width = 0, writer = FORMAT_HTML, options = CMARK_OPT_DEFAULT w, format = ''html''\<rparr>"

subsection \<open>Reading the input (lines 169 to 198)\<close>

text \<open>
  The \<^verbatim>\<open>while\<close> loop of lines 179 to 184 (and again 192 to 197) on a stream that still
  holds \<open>bytes\<close>: \<^verbatim>\<open>fread\<close> fills the buffer of 4096 bytes as far as the stream
  allows, a read of 0 bytes ends the loop, and so does a read shorter than the buffer,
  after it was fed.
\<close>

function feed_stream :: "string \<Rightarrow> 'd event list" where
  "feed_stream bytes =
    (let chunk = take 4096 bytes in
     if length chunk > 0 then
       Cmark_parser_feed chunk #
         (if length chunk < 4096 then [] else feed_stream (drop 4096 bytes))
     else [])"
  by pat_completeness auto
termination
  by (relation "measure length") auto

declare feed_stream.simps [simp del]

text \<open>The \<^verbatim>\<open>for\<close> loop of lines 170 to 188, from index \<open>i\<close> on.\<close>

function read_files ::
  "'d world \<Rightarrow> string list \<Rightarrow> locals \<Rightarrow> nat \<Rightarrow> 'd event list \<times> outcome option" where
  "read_files w argv s i =
    (if int i < numfps s then
       (case fetch (files s) (int i) of
          None \<Rightarrow> ([], Some Undefined)
        | Some j \<Rightarrow>
            (case argv_at argv j of
               None \<Rightarrow> ([], Some Undefined)
             | Some path \<Rightarrow>
                 (case fopen w path of
                    Inl reason \<Rightarrow>
                      ([Fopen path,
                        Stderr (''Error opening file '' @ path @ '': '' @ reason @ ''\<newline>'')],
                       Some (Exit 1))
                  | Inr bytes \<Rightarrow>
                      (let (es, r) = read_files w argv s (i + 1)
                       in (Fopen path # feed_stream bytes @ Fclose path # es, r)))))
     else ([], None))"
  by pat_completeness auto
termination
  by (relation "measure (\<lambda>(w, argv, s, i). nat (numfps s) - i)") auto

declare read_files.simps [simp del]

definition read_input ::
  "'d world \<Rightarrow> string list \<Rightarrow> locals \<Rightarrow> 'd event list \<times> outcome option" where
  "read_input w argv s =
    (case read_files w argv s 0 of
       (es, Some oc) \<Rightarrow> (es, Some oc)
     | (es, None) \<Rightarrow>
         (if numfps s = 0 then (es @ feed_stream (stdin w), None) else (es, None)))"

text \<open>The chunks a trace fed to the parser, in order.\<close>

fun fed :: "'d event list \<Rightarrow> string list" where
  "fed [] = []"
| "fed (Cmark_parser_feed c # es) = c # fed es"
| "fed (e # es) = fed es"

subsection \<open>The filter loop (lines 210 to 234)\<close>

text \<open>
  Lines 228 to 231: what the value a filter returned does to \<^verbatim>\<open>skip_rendering\<close>.
\<close>

definition update_skip :: "bool \<Rightarrow> lua_value \<Rightarrow> bool" where
  "update_skip skip_rendering v =
    (if lua_isnumber v then lua_tonumber v = - 1 else skip_rendering)"

text \<open>
  The loop from index \<open>i\<close> on, with the tree and \<^verbatim>\<open>skip_rendering\<close> as they are at that
  point. \<open>Inl\<close> is the end of the process, \<open>Inr\<close> the tree and the flag after the
  last filter. \<^verbatim>\<open>a || b\<close> is 1 when \<^verbatim>\<open>a\<close> is not 0, without evaluating \<^verbatim>\<open>b\<close>.
\<close>

function run_filters ::
  "'d world \<Rightarrow> string list \<Rightarrow> locals \<Rightarrow> nat \<Rightarrow> 'd \<Rightarrow> bool
     \<Rightarrow> 'd event list \<times> (outcome + 'd \<times> bool)" where
  "run_filters w argv s i document skip_rendering =
    (if int i < numluafps s then
       (case fetch (luafiles s) (int i) of
          None \<Rightarrow> ([], Inl Undefined)
        | Some j \<Rightarrow>
            (case argv_at argv j of
               None \<Rightarrow> ([], Inl Undefined)
             | Some path \<Rightarrow>
                 (let opened = [LuaL_newstate, LuaL_openlibs,
                                LuaL_requiref ''utf8'', LuaL_requiref ''cmark''];
                      loaded = luaL_loadfile w path;
                      status = (if loaded \<noteq> 0 then 1
                                else if chunk_pcall w path \<noteq> 0 then 1 else (0::int));
                      load_events = LuaL_loadfile path loaded #
                        (if loaded \<noteq> 0 then [] else [Lua_pcall 0 1 (chunk_pcall w path)])
                  in if status \<noteq> 0 then
                       (opened @ load_events @ [Stderr (load_message w path @ ''\<newline>'')],
                        Inl (Exit 3))
                     else
                       (let r = filter_pcall w path document (format s);
                            call_events = [Push_cmark_node document,
                                           Lua_pushstring (format s),
                                           Lua_pcall 2 1 (call_status r)]
                        in if call_status r \<noteq> 0 then
                             (opened @ load_events @ call_events @
                                [Stderr (''Error running filter '' @ path @ '': ''
                                         @ call_message r @ ''\<newline>'')],
                              Inl (Exit 5))
                           else
                             (let (es, res) =
                                    run_filters w argv s (i + 1) (tree_after r)
                                      (update_skip skip_rendering (returned r))
                              in (opened @ load_events @ call_events @
                                    Lua_isnumber (returned r) # Lua_close # es, res))))))
     else ([], Inr (document, skip_rendering)))"
  by pat_completeness auto
termination
  by (relation "measure (\<lambda>(w, argv, s, i, d, b). nat (numluafps s) - i)") auto

declare run_filters.simps [simp del]

subsection \<open>\<^verbatim>\<open>main\<close> (lines 74 to 249)\<close>

text \<open>
  Lines 75 to 203: the argument loop, the parser, the input; the result is the locals
  and the tree that \<^verbatim>\<open>cmark_parser_finish\<close> returned.
\<close>

definition parse_stage ::
  "'d world \<Rightarrow> int \<Rightarrow> string list \<Rightarrow> 'd event list \<times> (outcome + locals \<times> 'd)" where
  "parse_stage w garbage argv =
    (case parse_args w argv 1 (initial_locals w garbage argv) of
       (e1, Inl oc) \<Rightarrow> (e1, Inl oc)
     | (e1, Inr s) \<Rightarrow>
         (case read_input w argv s of
            (e2, Some oc) \<Rightarrow> (e1 @ Cmark_parser_new (options s) # e2, Inl oc)
          | (e2, None) \<Rightarrow>
              (let document = cmark_parser_finish w (options s) (fed e2)
               in (e1 @ Cmark_parser_new (options s) # e2 @
                     [Cmark_parser_finish document, Cmark_parser_free],
                   Inr (s, document)))))"

text \<open>
  Lines 75 to 234: up to the end of the filter loop; the result is the locals, the tree
  and \<^verbatim>\<open>skip_rendering\<close> (the spec's RenderControl: \<open>True\<close> is SKIP).
\<close>

definition filter_stage ::
  "'d world \<Rightarrow> int \<Rightarrow> string list
     \<Rightarrow> 'd event list \<times> (outcome + locals \<times> 'd \<times> bool)" where
  "filter_stage w garbage argv =
    (case parse_stage w garbage argv of
       (e1, Inl oc) \<Rightarrow> (e1, Inl oc)
     | (e1, Inr (s, document)) \<Rightarrow>
         (case run_filters w argv s 0 document False of
            (e2, Inl oc) \<Rightarrow> (e1 @ e2, Inl oc)
          | (e2, Inr (document', skip_rendering)) \<Rightarrow>
              (e1 @ e2, Inr (s, document', skip_rendering))))"

text \<open>Lines 236 to 248, after the filter loop.\<close>

definition render_stage ::
  "'d world \<Rightarrow> locals \<Rightarrow> 'd \<Rightarrow> bool \<Rightarrow> 'd event list \<times> outcome" where
  "render_stage w s document skip_rendering =
    (case (if \<not> skip_rendering
           then print_document w document (writer s) (options s) (width s)
           else ([], None)) of
       (es, Some oc) \<Rightarrow> (es, oc)
     | (es, None) \<Rightarrow>
         (es @ [Cmark_node_free document, Free_files, Free_luafiles], Exit 0))"

definition main :: "'d world \<Rightarrow> int \<Rightarrow> string list \<Rightarrow> 'd event list \<times> outcome" where
  "main w garbage argv =
    (case filter_stage w garbage argv of
       (e1, Inl oc) \<Rightarrow> (e1, oc)
     | (e1, Inr (s, document, skip_rendering)) \<Rightarrow>
         (case render_stage w s document skip_rendering of
            (e2, oc) \<Rightarrow> (e1 @ e2, oc)))"

subsection \<open>Reading a trace\<close>

definition trees_created :: "'d event list \<Rightarrow> nat" where
  "trees_created tr =
    length (filter (\<lambda>e. case e of Cmark_parser_finish d \<Rightarrow> True | _ \<Rightarrow> False) tr)"

definition trees_destroyed :: "'d event list \<Rightarrow> nat" where
  "trees_destroyed tr =
    length (filter (\<lambda>e. case e of Cmark_node_free d \<Rightarrow> True | _ \<Rightarrow> False) tr)"

definition is_render :: "'d event \<Rightarrow> bool" where
  "is_render e =
    (case e of
       Cmark_render_html d opts \<Rightarrow> True
     | Cmark_render_xml d opts \<Rightarrow> True
     | Cmark_render_man d opts wd \<Rightarrow> True
     | Cmark_render_commonmark d opts wd \<Rightarrow> True
     | Cmark_render_latex d opts wd \<Rightarrow> True
     | _ \<Rightarrow> False)"

definition renders :: "'d event list \<Rightarrow> nat" where
  "renders tr = length (filter is_render tr)"

text \<open>
  The events of the argument loop (\<open>is_output\<close>) and of the argument loop and the reading
  of the input together (\<open>plain\<close>): none of them touches a tree or a Lua state.
\<close>

definition is_output :: "'d event \<Rightarrow> bool" where
  "is_output e = (case e of Stdout t \<Rightarrow> True | Stderr t \<Rightarrow> True | _ \<Rightarrow> False)"

definition plain :: "'d event \<Rightarrow> bool" where
  "plain e =
    (case e of
       Stdout t \<Rightarrow> True
     | Stderr t \<Rightarrow> True
     | Fopen p \<Rightarrow> True
     | Fclose p \<Rightarrow> True
     | Cmark_parser_feed c \<Rightarrow> True
     | _ \<Rightarrow> False)"

text \<open>All the text written to standard output and to standard error.\<close>

definition stdout_text :: "'d event list \<Rightarrow> string" where
  "stdout_text tr = concat (map (\<lambda>e. case e of Stdout t \<Rightarrow> t | _ \<Rightarrow> []) tr)"

definition stderr_text :: "'d event list \<Rightarrow> string" where
  "stderr_text tr = concat (map (\<lambda>e. case e of Stderr t \<Rightarrow> t | _ \<Rightarrow> []) tr)"

text \<open>
  The number of Lua states that are open: \<^verbatim>\<open>luaL_newstate\<close> opens one, \<^verbatim>\<open>lua_close\<close>
  closes one. \<open>live_counts c tr\<close> lists the number before the first event of \<open>tr\<close> and
  after each of its events, starting from \<open>c\<close>.
\<close>

definition delta :: "'d event \<Rightarrow> int" where
  "delta e = (case e of LuaL_newstate \<Rightarrow> 1 | Lua_close \<Rightarrow> - 1 | _ \<Rightarrow> 0)"

fun live_counts :: "int \<Rightarrow> 'd event list \<Rightarrow> int list" where
  "live_counts c [] = [c]"
| "live_counts c (e # es) = c # live_counts (c + delta e) es"

definition live :: "'d event list \<Rightarrow> int" where
  "live tr = sum_list (map delta tr)"

definition loads :: "'d event list \<Rightarrow> nat" where
  "loads tr = length (filter (\<lambda>e. case e of LuaL_loadfile p st \<Rightarrow> True | _ \<Rightarrow> False) tr)"

definition states_opened :: "'d event list \<Rightarrow> nat" where
  "states_opened tr = length (filter (\<lambda>e. case e of LuaL_newstate \<Rightarrow> True | _ \<Rightarrow> False) tr)"

text \<open>
  A filter failed to load: \<^verbatim>\<open>luaL_loadfile\<close> or the call of the chunk (no arguments)
  returned a status other than 0. A filter failed when invoked: the call with
  arguments did.
\<close>

definition load_failed :: "'d event list \<Rightarrow> bool" where
  "load_failed tr =
    list_ex (\<lambda>e. case e of LuaL_loadfile p st \<Rightarrow> st \<noteq> 0
                  | Lua_pcall n r st \<Rightarrow> n = 0 \<and> st \<noteq> 0 | _ \<Rightarrow> False) tr"

definition invocation_failed :: "'d event list \<Rightarrow> bool" where
  "invocation_failed tr =
    list_ex (\<lambda>e. case e of Lua_pcall n r st \<Rightarrow> n \<noteq> 0 \<and> st \<noteq> 0 | _ \<Rightarrow> False) tr"

text \<open>The values the filters returned, as \<^verbatim>\<open>main\<close> inspected them, in order.\<close>

definition returns :: "'d event list \<Rightarrow> lua_value list" where
  "returns tr = concat (map (\<lambda>e. case e of Lua_isnumber v \<Rightarrow> [v] | _ \<Rightarrow> []) tr)"

text \<open>The number that the most recent numeric value of a list holds, if there is one.\<close>

fun last_numeric :: "lua_value list \<Rightarrow> real option" where
  "last_numeric [] = None"
| "last_numeric (v # vs) =
    (case last_numeric vs of
       Some x \<Rightarrow> Some x
     | None \<Rightarrow> (case v of Numeric x \<Rightarrow> Some x | NonNumeric \<Rightarrow> None))"

text \<open>
  A monitor for the way filters are called. It walks a trace and keeps the tree as it
  is now (set by \<^verbatim>\<open>cmark_parser_finish\<close>, changed by each filter that ran), the file of
  the filter being run, and the values pushed on the Lua stack since the last load or
  call. It accepts a trace when every call with no arguments finds nothing pushed, and
  every other call has two arguments and finds exactly the tree as it is now and the
  text \<open>fmt\<close> pushed, in this order.
\<close>

fun invoked_with ::
  "'d world \<Rightarrow> string \<Rightarrow> 'd option \<Rightarrow> string \<Rightarrow> 'd event list \<Rightarrow> 'd event list \<Rightarrow> bool" where
  "invoked_with w fmt cur path args [] = True"
| "invoked_with w fmt cur path args (e # es) =
    (case e of
       Cmark_parser_finish d \<Rightarrow> invoked_with w fmt (Some d) path args es
     | LuaL_loadfile p st \<Rightarrow> invoked_with w fmt cur p [] es
     | Push_cmark_node d \<Rightarrow> invoked_with w fmt cur path (args @ [e]) es
     | Lua_pushstring f \<Rightarrow> invoked_with w fmt cur path (args @ [e]) es
     | Lua_pcall n r st \<Rightarrow>
         (if n = 0 then args = [] \<and> invoked_with w fmt cur path [] es
          else (case cur of
                  None \<Rightarrow> False
                | Some d \<Rightarrow>
                    n = 2 \<and> args = [Push_cmark_node d, Lua_pushstring fmt] \<and>
                    invoked_with w fmt (Some (tree_after (filter_pcall w path d fmt)))
                      path [] es))
     | _ \<Rightarrow> invoked_with w fmt cur path args es)"

text \<open>The name of each format that \<^verbatim>\<open>--to\<close> accepts (lines 143 to 152).\<close>

definition format_name :: "writer_format \<Rightarrow> string" where
  "format_name wr =
    (case wr of
       FORMAT_NONE \<Rightarrow> []
     | FORMAT_HTML \<Rightarrow> ''html''
     | FORMAT_XML \<Rightarrow> ''xml''
     | FORMAT_MAN \<Rightarrow> ''man''
     | FORMAT_COMMONMARK \<Rightarrow> ''commonmark''
     | FORMAT_LATEX \<Rightarrow> ''latex'')"

text \<open>
  The argument loop is at index \<open>i\<close> with locals \<open>s\<close>: it started at 1 with the initial
  locals, and no argument before \<open>i\<close> ended the process.
\<close>

inductive loop_at :: "'d world \<Rightarrow> int \<Rightarrow> string list \<Rightarrow> nat \<Rightarrow> locals \<Rightarrow> bool"
  for w :: "'d world" and garbage :: int and argv :: "string list" where
  loop_start: "loop_at w garbage argv 1 (initial_locals w garbage argv)"
| loop_next: "loop_at w garbage argv i s \<Longrightarrow> i < length argv \<Longrightarrow>
     arg_step w argv i s = Next i' s' \<Longrightarrow> loop_at w garbage argv (i' + 1) s'"

text \<open>
  The paths handed to \<^verbatim>\<open>luaL_loadfile\<close> (line 215), in the order of the calls, and the
  number of calls of \<^verbatim>\<open>lua_pcall\<close> that pass arguments: the call of line 216 runs the
  chunk without arguments, the call of line 223 runs the filter function.
\<close>

definition loaded :: "'d event list \<Rightarrow> string list" where
  "loaded tr = concat (map (\<lambda>e. case e of LuaL_loadfile p st \<Rightarrow> [p] | _ \<Rightarrow> []) tr)"

definition invocations :: "'d event list \<Rightarrow> nat" where
  "invocations tr =
    length (filter (\<lambda>e. case e of Lua_pcall n r st \<Rightarrow> n \<noteq> 0 | _ \<Rightarrow> False) tr)"

subsection \<open>The input as the specification has it\<close>

text \<open>
  The FILE arguments of a command line without its first element, as the usage text
  has them: an argument is a FILE when it does not start with \<open>-\<close> and is not the
  operand of \<^verbatim>\<open>--lua\<close>, \<^verbatim>\<open>--width\<close>, \<^verbatim>\<open>-t\<close> or \<^verbatim>\<open>--to\<close>.
\<close>

fun positional :: "string list \<Rightarrow> string list" where
  "positional [] = []"
| "positional [a] = (if a \<noteq> [] \<and> hd a = CHR ''-'' then [] else [a])"
| "positional (a # b # rest) =
    (if a = ''--lua'' \<or> a = ''--width'' \<or> a = ''-t'' \<or> a = ''--to'' then positional rest
     else if a \<noteq> [] \<and> hd a = CHR ''-'' then positional (b # rest)
     else a # positional (b # rest))"

text \<open>
  Section 4.1 of the specification: each file of the list is opened in turn, in the
  order given, and fed in chunks; a file that cannot be opened ends the process; an
  empty list means standard input.
\<close>

fun read_named :: "'d world \<Rightarrow> string list \<Rightarrow> 'd event list \<times> outcome option" where
  "read_named w [] = ([], None)"
| "read_named w (path # paths) =
    (case fopen w path of
       Inl reason \<Rightarrow>
         ([Fopen path,
           Stderr (''Error opening file '' @ path @ '': '' @ reason @ ''\<newline>'')],
          Some (Exit 1))
     | Inr bytes \<Rightarrow>
         (let (es, r) = read_named w paths
          in (Fopen path # feed_stream bytes @ Fclose path # es, r)))"

definition read_as_specified ::
  "'d world \<Rightarrow> string list \<Rightarrow> 'd event list \<times> outcome option" where
  "read_as_specified w paths =
    (if paths = [] then (feed_stream (stdin w), None) else read_named w paths)"

text \<open>
  The arguments that the cells \<open>i\<close> to \<^verbatim>\<open>numfps - 1\<close> of \<open>files\<close> point to, and what it
  means for the two arrays to be in order when the argument loop is at index \<open>i\<close>: the
  counter is not negative and below \<open>i\<close>, and every cell below the counter holds an
  index into \<^verbatim>\<open>argv\<close>.
\<close>

definition file_names :: "string list \<Rightarrow> locals \<Rightarrow> nat \<Rightarrow> string list" where
  "file_names argv s i = map (\<lambda>k. argv ! nat (the (files s ! k))) [i ..< nat (numfps s)]"

definition files_recorded :: "string list \<Rightarrow> nat \<Rightarrow> locals \<Rightarrow> bool" where
  "files_recorded argv i s \<longleftrightarrow>
     0 \<le> numfps s \<and> numfps s < int i \<and> numfps s \<le> int (length argv) \<and>
     length (files s) = length argv \<and>
     (\<forall>k < nat (numfps s). \<exists>j. files s ! k = Some j \<and> 0 \<le> j \<and> j < int (length argv))"

definition filters_recorded :: "string list \<Rightarrow> nat \<Rightarrow> locals \<Rightarrow> bool" where
  "filters_recorded argv i s \<longleftrightarrow>
     0 \<le> numluafps s \<and> numluafps s < int i \<and> numluafps s \<le> int (length argv) \<and>
     length (luafiles s) = length argv \<and>
     (\<forall>k < nat (numluafps s). \<exists>j. luafiles s ! k = Some j \<and> 0 \<le> j \<and> j < int (length argv))"

subsection \<open>The command line as the specification has it\<close>

text \<open>
  The list of filters of a command line without its first element: the operands of
  \<^verbatim>\<open>--lua\<close>, in the order given. The operand of \<^verbatim>\<open>--width\<close>, \<^verbatim>\<open>-t\<close> or \<^verbatim>\<open>--to\<close> is not read
  as a flag, and a flag in the last place has no operand.
\<close>

fun lua_operands :: "string list \<Rightarrow> string list" where
  "lua_operands [] = []"
| "lua_operands [a] = []"
| "lua_operands (a # b # rest) =
    (if a = ''--lua'' then b # lua_operands rest
     else if a = ''--width'' \<or> a = ''-t'' \<or> a = ''--to'' then lua_operands rest
     else lua_operands (b # rest))"

text \<open>
  The format name: the operand of the last \<^verbatim>\<open>-t\<close> or \<^verbatim>\<open>--to\<close>, the default \<open>f\<close> when
  there is none.
\<close>

fun resolved_format :: "string \<Rightarrow> string list \<Rightarrow> string" where
  "resolved_format f [] = f"
| "resolved_format f [a] = f"
| "resolved_format f (a # b # rest) =
    (if a = ''-t'' \<or> a = ''--to'' then resolved_format b rest
     else if a = ''--lua'' \<or> a = ''--width'' then resolved_format f rest
     else resolved_format f (b # rest))"

text \<open>
  The wrap width: what \<^verbatim>\<open>strtol\<close> reads from the operand of the last \<^verbatim>\<open>--width\<close>, as an
  \<^verbatim>\<open>int\<close>, the default \<open>v\<close> when there is none.
\<close>

fun resolved_width :: "'d world \<Rightarrow> int \<Rightarrow> string list \<Rightarrow> int" where
  "resolved_width w v [] = v"
| "resolved_width w v [a] = v"
| "resolved_width w v (a # b # rest) =
    (if a = ''--width'' then resolved_width w (int_of_long (fst (strtol w b))) rest
     else if a = ''--lua'' \<or> a = ''-t'' \<or> a = ''--to'' then resolved_width w v rest
     else resolved_width w v (b # rest))"

text \<open>The arguments that the cells \<open>i\<close> to \<^verbatim>\<open>numluafps - 1\<close> of \<open>luafiles\<close> point to.\<close>

definition filter_names :: "string list \<Rightarrow> locals \<Rightarrow> nat \<Rightarrow> string list" where
  "filter_names argv s i =
    map (\<lambda>k. argv ! nat (the (luafiles s ! k))) [i ..< nat (numluafps s)]"

subsection \<open>A world for examples\<close>

text \<open>
  \<^verbatim>\<open>strtol\<close> with base 10 as ISO C describes it, for a \<^verbatim>\<open>long\<close> of 64 bits: white
  space, an optional sign, then digits; the value is clamped to the range of
  \<^verbatim>\<open>long\<close>; when there is no digit the value is 0 and nothing is consumed.
\<close>

definition isspace :: "char \<Rightarrow> bool" where
  "isspace c = (c \<in> set [CHR '' '', CHR 0x09, CHR 0x0A, CHR 0x0B, CHR 0x0C, CHR 0x0D])"

definition isdigit :: "char \<Rightarrow> bool" where
  "isdigit c = (c \<in> set ''0123456789'')"

definition strtol_base10 :: "string \<Rightarrow> int \<times> string" where
  "strtol_base10 str =
    (let s1 = dropWhile isspace str;
         negative = (s1 \<noteq> [] \<and> hd s1 = CHR ''-'');
         s2 = (if s1 \<noteq> [] \<and> (hd s1 = CHR ''-'' \<or> hd s1 = CHR ''+'') then tl s1 else s1);
         ds = takeWhile isdigit s2;
         n = foldl (\<lambda>acc c. 10 * acc + (of_char c - 48)) (0::int) ds;
         v = (if negative then - n else n)
     in if ds = [] then (0, str)
        else (max (- (2 ^ 63)) (min (2 ^ 63 - 1) v), dropWhile isdigit s2))"

text \<open>
  The tree of a document is its text, the renderers wrap it in a mark of the format, and
  the man, commonmark and latex renderers cut it at the width when the width is not 0.
  The filters are known by file name.
\<close>

definition example_filter :: "string \<Rightarrow> string \<Rightarrow> string \<Rightarrow> string invocation" where
  "example_filter path d fmt =
    (if path = ''raise.lua'' then
       \<lparr>call_status = 2, call_message = ''raise.lua:1: boom'', tree_after = d,
        returned = NonNumeric\<rparr>
     else if path = ''skip.lua'' then
       \<lparr>call_status = 0, call_message = [], tree_after = d, returned = Numeric (- 1)\<rparr>
     else if path = ''zero.lua'' then
       \<lparr>call_status = 0, call_message = [], tree_after = d, returned = Numeric 0\<rparr>
     else if path = ''tag.lua'' then
       \<lparr>call_status = 0, call_message = [], tree_after = d @ ''['' @ fmt @ '']'',
        returned = NonNumeric\<rparr>
     else
       \<lparr>call_status = 0, call_message = [], tree_after = d, returned = NonNumeric\<rparr>)"

definition example_world :: "string world" where
  "example_world =
    \<lparr>CMARK_VERSION_STRING = ''0.22.0'',
     CMARK_OPT_DEFAULT = 0,
     CMARK_OPT_SOURCEPOS = 2,
     CMARK_OPT_HARDBREAKS = 4,
     CMARK_OPT_SMART = 1024,
     CMARK_OPT_SAFE = 8,
     CMARK_OPT_NORMALIZE = 256,
     CMARK_OPT_VALIDATE_UTF8 = 512,
     strtol = strtol_base10,
     fopen = (\<lambda>path. if path = ''a.md'' then Inr ''# Hi\<newline>''
                      else if path = ''b.md'' then Inr ''text\<newline>''
                      else Inl ''No such file or directory''),
     stdin = ''from stdin\<newline>'',
     cmark_parser_finish = (\<lambda>opts chunks. concat chunks),
     luaL_loadfile = (\<lambda>path. if path = ''syntax.lua'' then 3 else 0),
     chunk_pcall = (\<lambda>path. if path = ''chunk.lua'' then 2 else 0),
     load_message = (\<lambda>path. path @ '':1: syntax error''),
     filter_pcall = example_filter,
     cmark_render_html = (\<lambda>d opts. ''<p>'' @ d @ ''</p>''),
     cmark_render_xml = (\<lambda>d opts. ''<xml>'' @ d @ ''</xml>''),
     cmark_render_man = (\<lambda>d opts wd. ''.PP '' @ (if wd = 0 then d else take (nat wd) d)),
     cmark_render_commonmark = (\<lambda>d opts wd. if wd = 0 then d else take (nat wd) d),
     cmark_render_latex = (\<lambda>d opts wd. ''%tex '' @ (if wd = 0 then d else take (nat wd) d))\<rparr>"

section \<open>Traces\<close>

lemma is_output_plain: "list_all is_output es \<Longrightarrow> list_all plain es"
  by (induction es) (auto simp: is_output_def plain_def split: event.splits)

lemma plain_created: "list_all plain es \<Longrightarrow> trees_created es = 0"
  by (induction es) (auto simp: plain_def trees_created_def split: event.splits)

lemma plain_destroyed: "list_all plain es \<Longrightarrow> trees_destroyed es = 0"
  by (induction es) (auto simp: plain_def trees_destroyed_def split: event.splits)

lemma plain_renders: "list_all plain es \<Longrightarrow> renders es = 0"
  by (induction es) (auto simp: plain_def renders_def is_render_def split: event.splits)

lemma plain_returns: "list_all plain es \<Longrightarrow> returns es = []"
  by (induction es) (auto simp: plain_def returns_def split: event.splits)

lemma plain_load_failed: "list_all plain es \<Longrightarrow> \<not> load_failed es"
  by (induction es) (auto simp: plain_def load_failed_def split: event.splits)

lemma plain_invocation_failed: "list_all plain es \<Longrightarrow> \<not> invocation_failed es"
  by (induction es) (auto simp: plain_def invocation_failed_def split: event.splits)

lemma plain_live: "list_all plain es \<Longrightarrow> live es = 0"
  by (induction es) (auto simp: plain_def live_def delta_def split: event.splits)

lemma plain_live_counts: "list_all plain es \<Longrightarrow> set (live_counts c es) = {c}"
  by (induction es arbitrary: c) (auto simp: plain_def delta_def split: event.splits)

lemma plain_states_opened: "list_all plain es \<Longrightarrow> states_opened es = 0"
  by (induction es) (auto simp: plain_def states_opened_def split: event.splits)

lemma plain_loads: "list_all plain es \<Longrightarrow> loads es = 0"
  by (induction es) (auto simp: plain_def loads_def split: event.splits)

lemma plain_invoked_with:
  "list_all plain es \<Longrightarrow>
     invoked_with w fmt cur path args (es @ es') = invoked_with w fmt cur path args es'"
  by (induction es) (auto simp: plain_def split: event.splits)

lemma live_append: "live (xs @ ys) = live xs + live ys"
  by (simp add: live_def)

lemma live_counts_append:
  "set (live_counts c (xs @ ys)) = set (live_counts c xs) \<union> set (live_counts (c + live xs) ys)"
proof (induction xs arbitrary: c)
  case Nil
  show ?case by (cases ys) (auto simp: live_def)
next
  case (Cons x xs)
  then show ?case by (simp add: live_def add.assoc)
qed

lemma trees_created_append: "trees_created (xs @ ys) = trees_created xs + trees_created ys"
  by (simp add: trees_created_def)

lemma trees_destroyed_append:
  "trees_destroyed (xs @ ys) = trees_destroyed xs + trees_destroyed ys"
  by (simp add: trees_destroyed_def)

lemma renders_append: "renders (xs @ ys) = renders xs + renders ys"
  by (simp add: renders_def)

lemma stdout_text_append: "stdout_text (xs @ ys) = stdout_text xs @ stdout_text ys"
  by (simp add: stdout_text_def)

lemma returns_append: "returns (xs @ ys) = returns xs @ returns ys"
  by (simp add: returns_def)

lemma load_failed_append: "load_failed (xs @ ys) \<longleftrightarrow> load_failed xs \<or> load_failed ys"
  by (simp add: load_failed_def list_ex_iff) blast

lemma invocation_failed_append:
  "invocation_failed (xs @ ys) \<longleftrightarrow> invocation_failed xs \<or> invocation_failed ys"
  by (simp add: invocation_failed_def list_ex_iff) blast

lemma states_opened_append: "states_opened (xs @ ys) = states_opened xs + states_opened ys"
  by (simp add: states_opened_def)

lemma loads_append: "loads (xs @ ys) = loads xs + loads ys"
  by (simp add: loads_def)

lemma last_numeric_append:
  "last_numeric (xs @ ys) =
     (case last_numeric ys of Some x \<Rightarrow> Some x | None \<Rightarrow> last_numeric xs)"
  by (induction xs) (auto split: option.splits)


lemma plain_intros:
  "plain (Stdout t)" "plain (Stderr t)" "plain (Fopen p)" "plain (Fclose p)"
  "plain (Cmark_parser_feed c)"
  by (simp_all add: plain_def)

lemma trace_Nil:
  "trees_created [] = 0" "trees_destroyed [] = 0" "renders [] = 0" "stdout_text [] = []"
  "returns [] = []" "\<not> load_failed []" "\<not> invocation_failed []" "states_opened [] = 0"
  "loads [] = 0" "live [] = 0"
  by (simp_all add: trees_created_def trees_destroyed_def renders_def stdout_text_def
      returns_def load_failed_def invocation_failed_def states_opened_def loads_def live_def)

lemma trace_Cons:
  "trees_created (e # es) =
     (case e of Cmark_parser_finish d \<Rightarrow> 1 | _ \<Rightarrow> 0) + trees_created es"
  "trees_destroyed (e # es) =
     (case e of Cmark_node_free d \<Rightarrow> 1 | _ \<Rightarrow> 0) + trees_destroyed es"
  "renders (e # es) = (if is_render e then 1 else 0) + renders es"
  "stdout_text (e # es) = (case e of Stdout t \<Rightarrow> t | _ \<Rightarrow> []) @ stdout_text es"
  "returns (e # es) = (case e of Lua_isnumber v \<Rightarrow> [v] | _ \<Rightarrow> []) @ returns es"
  "load_failed (e # es) \<longleftrightarrow>
     (case e of LuaL_loadfile p st \<Rightarrow> st \<noteq> 0
      | Lua_pcall n r st \<Rightarrow> n = 0 \<and> st \<noteq> 0 | _ \<Rightarrow> False) \<or> load_failed es"
  "invocation_failed (e # es) \<longleftrightarrow>
     (case e of Lua_pcall n r st \<Rightarrow> n \<noteq> 0 \<and> st \<noteq> 0 | _ \<Rightarrow> False) \<or> invocation_failed es"
  "states_opened (e # es) = (case e of LuaL_newstate \<Rightarrow> 1 | _ \<Rightarrow> 0) + states_opened es"
  "loads (e # es) = (case e of LuaL_loadfile p st \<Rightarrow> 1 | _ \<Rightarrow> 0) + loads es"
  "live (e # es) = delta e + live es"
  by (simp_all add: trees_created_def trees_destroyed_def renders_def stdout_text_def
      returns_def load_failed_def invocation_failed_def states_opened_def loads_def live_def
      split: event.splits)

lemmas trace_append = trees_created_append trees_destroyed_append renders_append
  stdout_text_append returns_append load_failed_append invocation_failed_append
  states_opened_append loads_append live_append

section \<open>The argument loop\<close>

lemma print_usage_output: "list_all is_output print_usage"
  by (simp add: print_usage_def is_output_def)

lemma arg_step_Next:
  "arg_step w argv i s = Next i' s' \<Longrightarrow>
     i \<le> i' \<and> i' \<le> i + 1 \<and>
     (width s' = width s \<or>
        argv ! i = ''--width'' \<and> i' = i + 1 \<and> i + 1 < length argv \<and>
        snd (strtol w (argv ! (i + 1))) = [] \<and>
        width s' = int_of_long (fst (strtol w (argv ! (i + 1))))) \<and>
     (writer s' = writer s \<and> format s' = format s \<or>
        (argv ! i = ''-t'' \<or> argv ! i = ''--to'') \<and> i' = i + 1 \<and> i + 1 < length argv \<and>
        writer s' \<noteq> FORMAT_NONE \<and> format s' = argv ! (i + 1) \<and>
        format_name (writer s') = format s') \<and>
     (luafiles s' = luafiles s \<and> numluafps s' = numluafps s \<or>
        argv ! i = ''--lua'' \<and> i' = i + 1 \<and> i + 1 < length argv \<and>
        store (luafiles s) (numluafps s) (int (i + 1)) = Some (luafiles s') \<and>
        numluafps s' = numluafps s + 1) \<and>
     (files s' = files s \<and> numfps s' = numfps s \<or>
        i' = i \<and> store (files s) (numfps s) (int i) = Some (files s') \<and>
        numfps s' = numfps s + 1)"
  unfolding arg_step_def Let_def
  by (clarsimp simp: format_name_def split: if_splits option.splits prod.splits)

lemma arg_step_Stop:
  "arg_step w argv i s = Stop es oc \<Longrightarrow>
     list_all is_output es \<and> (oc = Exit 0 \<or> oc = Exit 1 \<or> oc = Undefined)"
  unfolding arg_step_def Let_def
  by (clarsimp simp: is_output_def print_usage_output split: if_splits option.splits prod.splits)

lemma parse_args_Inr:
  "parse_args w argv i s = (es, Inr s') \<Longrightarrow> es = []"
proof (induction w argv i s rule: parse_args.induct)
  case (1 w argv i s)
  show ?case
  proof (cases "i < length argv")
    case True
    with "1.prems" "1.IH" show ?thesis
      by (simp add: parse_args.simps [of w argv i s] split: step.splits)
  next
    case False
    with "1.prems" show ?thesis by (simp add: parse_args.simps [of w argv i s])
  qed
qed

lemma parse_args_Inl:
  "parse_args w argv i s = (es, Inl oc) \<Longrightarrow>
     list_all is_output es \<and> (oc = Exit 0 \<or> oc = Exit 1 \<or> oc = Undefined)"
proof (induction w argv i s rule: parse_args.induct)
  case (1 w argv i s)
  show ?case
  proof (cases "i < length argv")
    case True
    show ?thesis
    proof (cases "arg_step w argv i s")
      case (Stop es' oc')
      with True "1.prems" have "es' = es" "oc' = oc"
        by (simp_all add: parse_args.simps [of w argv i s])
      with Stop show ?thesis using arg_step_Stop by blast
    next
      case (Next i' s')
      with True "1.prems" have "parse_args w argv (i' + 1) s' = (es, Inl oc)"
        by (simp add: parse_args.simps [of w argv i s])
      with "1.IH" True Next show ?thesis by simp
    qed
  next
    case False
    with "1.prems" show ?thesis by (simp add: parse_args.simps [of w argv i s])
  qed
qed

lemma loop_at_parse_args:
  "loop_at w g argv i s \<Longrightarrow>
     parse_args w argv 1 (initial_locals w g argv) = parse_args w argv i s"
proof (induction rule: loop_at.induct)
  case loop_start
  show ?case by simp
next
  case (loop_next i s i' s')
  then show ?case by (simp add: parse_args.simps [of w argv i s])
qed

lemma parse_args_loop_at:
  "parse_args w argv i s = (es, Inr s') \<Longrightarrow> loop_at w g argv i s \<Longrightarrow>
     \<exists>n. length argv \<le> n \<and> loop_at w g argv n s'"
proof (induction w argv i s rule: parse_args.induct)
  case (1 w argv i s)
  show ?case
  proof (cases "i < length argv")
    case True
    show ?thesis
    proof (cases "arg_step w argv i s")
      case (Stop es' oc')
      with True "1.prems" show ?thesis
        by (simp add: parse_args.simps [of w argv i s])
    next
      case (Next i' s'')
      with True "1.prems" have run: "parse_args w argv (i' + 1) s'' = (es, Inr s')"
        by (simp add: parse_args.simps [of w argv i s])
      from "1.prems"(2) True Next have "loop_at w g argv (i' + 1) s''"
        by (rule loop_next)
      with "1.IH" True Next run show ?thesis by simp
    qed
  next
    case False
    with "1.prems" have "s' = s"
      by (simp add: parse_args.simps [of w argv i s])
    with False "1.prems"(2) show ?thesis
      by (intro exI [of _ i]) simp
  qed
qed

text \<open>What holds of the locals whenever the loop is at an index.\<close>

lemma loop_at_writer:
  "loop_at w g argv i s \<Longrightarrow> writer s \<noteq> FORMAT_NONE \<and> format_name (writer s) = format s"
proof (induction rule: loop_at.induct)
  case loop_start
  show ?case by (simp add: initial_locals_def format_name_def)
next
  case (loop_next i s i' s')
  from arg_step_Next [OF loop_next.hyps(3)] loop_next.IH show ?case by auto
qed

lemma loop_at_width:
  "loop_at w g argv i s \<Longrightarrow> width s = 0 \<or> ''--width'' \<in> set argv"
proof (induction rule: loop_at.induct)
  case loop_start
  show ?case by (simp add: initial_locals_def)
next
  case (loop_next i s i' s')
  from loop_next.hyps(2) have "argv ! i \<in> set argv" by simp
  with arg_step_Next [OF loop_next.hyps(3)] loop_next.IH show ?case by auto
qed

lemma loop_at_format:
  "loop_at w g argv i s \<Longrightarrow>
     format s = ''html'' \<or>
     (\<exists>k. k + 1 < length argv \<and> (argv ! k = ''-t'' \<or> argv ! k = ''--to'') \<and>
          format s = argv ! (k + 1))"
proof (induction rule: loop_at.induct)
  case loop_start
  show ?case by (simp add: initial_locals_def)
next
  case (loop_next i s i' s')
  from arg_step_Next [OF loop_next.hyps(3)] loop_next.IH show ?case by metis
qed

section \<open>Reading\<close>

lemma feed_stream_events:
  "list_all plain (feed_stream bytes :: 'd event list) \<and>
   stdout_text (feed_stream bytes :: 'd event list) = []"
proof (induction bytes rule: feed_stream.induct)
  case (1 bytes)
  show ?case
  proof (cases "length (take 4096 bytes) > 0 \<and> \<not> length (take 4096 bytes) < 4096")
    case True
    with "1.IH" [of "take 4096 bytes"] show ?thesis
      by (subst (1 2) feed_stream.simps) (simp add: plain_intros trace_Cons Let_def)
  next
    case False
    then show ?thesis
      by (subst (1 2) feed_stream.simps) (auto simp: plain_intros trace_Cons trace_Nil Let_def)
  qed
qed

lemma read_files_events:
  "read_files w argv s i = (es, r) \<Longrightarrow>
     list_all plain es \<and> stdout_text es = [] \<and>
     (r = None \<or> r = Some (Exit 1) \<or> r = Some Undefined)"
proof (induction w argv s i arbitrary: es r rule: read_files.induct)
  case (1 w argv s i)
  from "1.prems" show ?case
    apply (subst (asm) read_files.simps)
    apply (simp split: if_splits option.splits sum.splits prod.splits)
      apply (auto simp: plain_intros trace_Cons trace_Nil trace_append feed_stream_events
        dest!: "1.IH")
    done
qed

lemma read_input_events:
  "read_input w argv s = (es, r) \<Longrightarrow>
     list_all plain es \<and> stdout_text es = [] \<and>
     (r = None \<or> r = Some (Exit 1) \<or> r = Some Undefined)"
  unfolding read_input_def
  by (auto simp: trace_append feed_stream_events
      split: prod.splits option.splits if_splits dest: read_files_events)

section \<open>The filter loop\<close>

lemma run_filters_cases:
  assumes "run_filters w argv s i d b = (tr, r)"
  obtains
    (finished) "\<not> int i < numluafps s" "tr = []" "r = Inr (d, b)"
  | (undefined) "int i < numluafps s" "tr = []" "r = Inl Undefined"
  | (load) path st where "int i < numluafps s" "st \<noteq> 0"
      "tr = [LuaL_newstate, LuaL_openlibs, LuaL_requiref ''utf8'', LuaL_requiref ''cmark'',
             LuaL_loadfile path st, Stderr (load_message w path @ ''\<newline>'')]"
      "r = Inl (Exit 3)"
  | (chunk) path st where "int i < numluafps s" "st \<noteq> 0"
      "tr = [LuaL_newstate, LuaL_openlibs, LuaL_requiref ''utf8'', LuaL_requiref ''cmark'',
             LuaL_loadfile path 0, Lua_pcall 0 1 st,
             Stderr (load_message w path @ ''\<newline>'')]"
      "r = Inl (Exit 3)"
  | (raised) path st msg where "int i < numluafps s" "st \<noteq> 0" "msg \<noteq> []"
      "tr = [LuaL_newstate, LuaL_openlibs, LuaL_requiref ''utf8'', LuaL_requiref ''cmark'',
             LuaL_loadfile path 0, Lua_pcall 0 1 0,
             Push_cmark_node d, Lua_pushstring (format s), Lua_pcall 2 1 st, Stderr msg]"
      "r = Inl (Exit 5)"
  | (returned) path es where "int i < numluafps s"
      "call_status (filter_pcall w path d (format s)) = 0"
      "run_filters w argv s (i + 1) (tree_after (filter_pcall w path d (format s)))
         (update_skip b (returned (filter_pcall w path d (format s)))) = (es, r)"
      "tr = [LuaL_newstate, LuaL_openlibs, LuaL_requiref ''utf8'', LuaL_requiref ''cmark'',
             LuaL_loadfile path 0, Lua_pcall 0 1 0,
             Push_cmark_node d, Lua_pushstring (format s), Lua_pcall 2 1 0,
             Lua_isnumber (returned (filter_pcall w path d (format s))), Lua_close] @ es"
proof (cases "int i < numluafps s")
  case False
  with assms finished show thesis
    by (simp add: run_filters.simps [of w argv s i d b])
next
  case running: True
  show thesis
  proof (cases "fetch (luafiles s) (int i)")
    case None
    with assms running undefined show thesis
      by (simp add: run_filters.simps [of w argv s i d b])
  next
    case (Some j)
    note cell = this
    show thesis
    proof (cases "argv_at argv j")
      case None
      with assms running cell undefined show thesis
        by (simp add: run_filters.simps [of w argv s i d b])
    next
      case (Some path)
      note name = this
      show thesis
      proof (cases "luaL_loadfile w path = 0")
        case False
        with assms running cell name load [of "luaL_loadfile w path" path] show thesis
          by (simp add: run_filters.simps [of w argv s i d b] Let_def)
      next
        case loaded: True
        show thesis
        proof (cases "chunk_pcall w path = 0")
          case False
          with assms running cell name loaded chunk [of "chunk_pcall w path" path]
          show thesis
            by (simp add: run_filters.simps [of w argv s i d b] Let_def)
        next
          case ran: True
          show thesis
          proof (cases "call_status (filter_pcall w path d (format s)) = 0")
            case False
            with assms running cell name loaded ran
              raised [where st = "call_status (filter_pcall w path d (format s))"
                and path = path
                and msg = "''Error running filter '' @ path @ '': ''
                   @ call_message (filter_pcall w path d (format s)) @ ''\<newline>''"]
            show thesis
              by (simp add: run_filters.simps [of w argv s i d b] Let_def)
          next
            case True
            obtain es r' where rest:
              "run_filters w argv s (i + 1) (tree_after (filter_pcall w path d (format s)))
                 (update_skip b (returned (filter_pcall w path d (format s)))) = (es, r')"
              by (cases "run_filters w argv s (i + 1)
                    (tree_after (filter_pcall w path d (format s)))
                    (update_skip b (returned (filter_pcall w path d (format s))))")
            with assms running cell name loaded ran True
            have "tr = [LuaL_newstate, LuaL_openlibs, LuaL_requiref ''utf8'',
                        LuaL_requiref ''cmark'', LuaL_loadfile path 0, Lua_pcall 0 1 0,
                        Push_cmark_node d, Lua_pushstring (format s), Lua_pcall 2 1 0,
                        Lua_isnumber (returned (filter_pcall w path d (format s))),
                        Lua_close] @ es" and "r' = r"
              by (simp_all add: run_filters.simps [of w argv s i d b] Let_def)
            with running True rest returned [of path es] show thesis by simp
          qed
        qed
      qed
    qed
  qed
qed

lemma run_filters_counts:
  "run_filters w argv s i d b = (tr, r) \<Longrightarrow>
     trees_created tr = 0 \<and> trees_destroyed tr = 0 \<and> renders tr = 0 \<and> stdout_text tr = []"
proof (induction "nat (numluafps s) - i" arbitrary: i d b tr r rule: less_induct)
  case less
  from less.prems show ?case
  proof (cases rule: run_filters_cases)
    case (returned path es)
    from returned(1) have "nat (numluafps s) - (i + 1) < nat (numluafps s) - i" by linarith
    from less.hyps [OF this returned(3)] returned(4) show ?thesis
      by (simp add: trace_Cons trace_append is_render_def)
  qed (simp_all add: trace_Cons trace_Nil is_render_def)
qed

lemma run_filters_live:
  "run_filters w argv s i d b = (tr, r) \<Longrightarrow>
     (\<forall>c \<in> set (live_counts 0 tr). c = 0 \<or> c = 1) \<and>
     live tr = (if r = Inl (Exit 3) \<or> r = Inl (Exit 5) then 1 else 0) \<and>
     states_opened tr = loads tr"
proof (induction "nat (numluafps s) - i" arbitrary: i d b tr r rule: less_induct)
  case less
  from less.prems show ?case
  proof (cases rule: run_filters_cases)
    case (returned path es)
    from returned(1) have "nat (numluafps s) - (i + 1) < nat (numluafps s) - i" by linarith
    from less.hyps [OF this returned(3)] returned(4) show ?thesis
      by (simp add: trace_Cons trace_append delta_def)
  qed (simp_all add: trace_Cons trace_Nil delta_def)
qed

lemma run_filters_skip:
  "run_filters w argv s i d b = (tr, Inr (d', b')) \<Longrightarrow>
     b' = (case last_numeric (returns tr) of None \<Rightarrow> b | Some x \<Rightarrow> x = - 1) \<and>
     length (returns tr) = nat (numluafps s) - i"
proof (induction "nat (numluafps s) - i" arbitrary: i d b tr rule: less_induct)
  case less
  from less.prems show ?case
  proof (cases rule: run_filters_cases)
    case (returned path es)
    from returned(1) have "nat (numluafps s) - (i + 1) < nat (numluafps s) - i" by linarith
    from less.hyps [OF this returned(3)] returned(1,4) show ?thesis
      by (auto simp: trace_Cons trace_append update_skip_def lua_isnumber_def
          lua_tonumber_def split: option.splits lua_value.splits)
  qed (simp_all add: trace_Cons trace_Nil)
qed

lemma run_filters_failures:
  "run_filters w argv s i d b = (tr, r) \<Longrightarrow>
     (r = Inl (Exit 3) \<longleftrightarrow> load_failed tr) \<and>
     (r = Inl (Exit 5) \<longleftrightarrow> invocation_failed tr) \<and>
     (r = Inl (Exit 3) \<or> r = Inl (Exit 5) \<longrightarrow>
        tr \<noteq> [] \<and> (\<exists>m. last tr = Stderr m \<and> m \<noteq> [])) \<and>
     (r = Inl (Exit 3) \<or> r = Inl (Exit 5) \<or> r = Inl Undefined \<or> (\<exists>d' b'. r = Inr (d', b')))"
proof (induction "nat (numluafps s) - i" arbitrary: i d b tr r rule: less_induct)
  case less
  from less.prems show ?case
  proof (cases rule: run_filters_cases)
    case (returned path es)
    from returned(1) have "nat (numluafps s) - (i + 1) < nat (numluafps s) - i" by linarith
    from less.hyps [OF this returned(3)] returned(4) show ?thesis
      by (auto simp: trace_Cons trace_append)
  qed (simp_all add: trace_Cons trace_Nil)
qed

lemma run_filters_invoked:
  "run_filters w argv s i d b = (tr, r) \<Longrightarrow>
     (\<And>cur p. invoked_with w (format s) cur p [] rest) \<Longrightarrow>
     invoked_with w (format s) (Some d) p [] (tr @ rest)"
proof (induction "nat (numluafps s) - i" arbitrary: i d b tr r p rule: less_induct)
  case less
  from less.prems(1) show ?case
  proof (cases rule: run_filters_cases)
    case (returned path es)
    from returned(1) have "nat (numluafps s) - (i + 1) < nat (numluafps s) - i" by linarith
    from less.hyps [OF this returned(3) less.prems(2)] returned(4) show ?thesis
      by simp
  qed (simp_all add: less.prems(2))
qed


text \<open>The monitor does reject calls with another format, another tree, or one argument.\<close>

lemma invoked_with_rejects:
  "\<not> invoked_with w ''html'' (Some d) p []
       [Push_cmark_node d, Lua_pushstring ''xml'', Lua_pcall 2 1 0]"
  "\<not> invoked_with w fmt (Some d) p [] [Push_cmark_node d, Lua_pcall 1 1 0]"
  "d' \<noteq> d \<Longrightarrow>
     \<not> invoked_with w fmt (Some d) p []
         [Push_cmark_node d', Lua_pushstring fmt, Lua_pcall 2 1 0]"
  by simp_all

section \<open>The whole run\<close>

lemma is_render_intros:
  "is_render (Cmark_render_html d opts)" "is_render (Cmark_render_xml d opts)"
  "is_render (Cmark_render_man d opts wd)" "is_render (Cmark_render_commonmark d opts wd)"
  "is_render (Cmark_render_latex d opts wd)"
  by (simp_all add: is_render_def)

lemma print_document_cases:
  assumes "print_document w d wr opts wd = (es, r)"
  obtains
    (none) "wr = FORMAT_NONE" "es = [Stderr ''Unknown format 0\<newline>'']" "r = Some (Exit 1)"
  | (rendered) e out where "wr \<noteq> FORMAT_NONE" "is_render e" "es = [e, Stdout out, Free_result]"
      "r = None"
proof (cases wr)
  case FORMAT_NONE
  with assms none show thesis by (simp add: print_document_def)
next
  case FORMAT_HTML
  with assms show thesis
    by (intro rendered [of "Cmark_render_html d opts" "cmark_render_html w d opts"])
       (simp_all add: print_document_def is_render_intros)
next
  case FORMAT_XML
  with assms show thesis
    by (intro rendered [of "Cmark_render_xml d opts" "cmark_render_xml w d opts"])
       (simp_all add: print_document_def is_render_intros)
next
  case FORMAT_MAN
  with assms show thesis
    by (intro rendered [of "Cmark_render_man d opts wd" "cmark_render_man w d opts wd"])
       (simp_all add: print_document_def is_render_intros)
next
  case FORMAT_COMMONMARK
  with assms show thesis
    by (intro rendered [of "Cmark_render_commonmark d opts wd"
          "cmark_render_commonmark w d opts wd"])
       (simp_all add: print_document_def is_render_intros)
next
  case FORMAT_LATEX
  with assms show thesis
    by (intro rendered [of "Cmark_render_latex d opts wd" "cmark_render_latex w d opts wd"])
       (simp_all add: print_document_def is_render_intros)
qed

lemma render_stage_cases:
  assumes "render_stage w s d skip = (es, oc)"
  obtains
    (skipped) "skip" "es = [Cmark_node_free d, Free_files, Free_luafiles]" "oc = Exit 0"
  | (none) "\<not> skip" "writer s = FORMAT_NONE" "es = [Stderr ''Unknown format 0\<newline>'']"
      "oc = Exit 1"
  | (rendered) e out where "\<not> skip" "writer s \<noteq> FORMAT_NONE" "is_render e"
      "es = [e, Stdout out, Free_result, Cmark_node_free d, Free_files, Free_luafiles]"
      "oc = Exit 0"
proof (cases skip)
  case True
  with assms skipped show thesis by (simp add: render_stage_def)
next
  case False
  obtain es' r where pd: "print_document w d (writer s) (options s) (width s) = (es', r)"
    by (cases "print_document w d (writer s) (options s) (width s)")
  from pd show thesis
  proof (cases rule: print_document_cases)
    case none
    with assms False pd show thesis
      by (intro that(2)) (simp_all add: render_stage_def)
  next
    case (rendered e out)
    with assms False pd show thesis
      by (intro that(3) [of e out]) (simp_all add: render_stage_def)
  qed
qed

lemma parse_stage_cases:
  assumes "parse_stage w g argv = (tr, r)"
  obtains
    (usage) oc where "parse_args w argv 1 (initial_locals w g argv) = (tr, Inl oc)"
      "r = Inl oc"
  | (input) s e2 oc where "parse_args w argv 1 (initial_locals w g argv) = ([], Inr s)"
      "read_input w argv s = (e2, Some oc)" "tr = Cmark_parser_new (options s) # e2"
      "r = Inl oc"
  | (parsed) s e2 d where "parse_args w argv 1 (initial_locals w g argv) = ([], Inr s)"
      "read_input w argv s = (e2, None)" "d = cmark_parser_finish w (options s) (fed e2)"
      "tr = Cmark_parser_new (options s) # e2 @ [Cmark_parser_finish d, Cmark_parser_free]"
      "r = Inr (s, d)"
proof -
  obtain e1 r1 where pa: "parse_args w argv 1 (initial_locals w g argv) = (e1, r1)"
    by (cases "parse_args w argv 1 (initial_locals w g argv)")
  show thesis
  proof (cases r1)
    case (Inl oc)
    with assms pa usage [of oc] show thesis by (simp add: parse_stage_def)
  next
    case (Inr s)
    with pa have e1: "e1 = []" by (simp add: parse_args_Inr)
    obtain e2 r2 where ri: "read_input w argv s = (e2, r2)"
      by (cases "read_input w argv s")
    show thesis
    proof (cases r2)
      case (Some oc)
      with assms pa Inr e1 ri input [of s e2 oc] show thesis
        by (simp add: parse_stage_def)
    next
      case None
      with assms pa Inr e1 ri parsed [of s e2] show thesis
        by (simp add: parse_stage_def Let_def)
    qed
  qed
qed

lemma filter_stage_cases:
  assumes "filter_stage w g argv = (tr, r)"
  obtains
    (early) oc where "parse_stage w g argv = (tr, Inl oc)" "r = Inl oc"
  | (failed) e1 s d e3 oc where "parse_stage w g argv = (e1, Inr (s, d))"
      "run_filters w argv s 0 d False = (e3, Inl oc)" "tr = e1 @ e3" "r = Inl oc"
  | (filtered) e1 s d e3 d' skip where "parse_stage w g argv = (e1, Inr (s, d))"
      "run_filters w argv s 0 d False = (e3, Inr (d', skip))" "tr = e1 @ e3"
      "r = Inr (s, d', skip)"
proof -
  obtain e1 r1 where ps: "parse_stage w g argv = (e1, r1)"
    by (cases "parse_stage w g argv")
  show thesis
  proof (cases r1)
    case (Inl oc)
    with assms ps early [of oc] show thesis by (simp add: filter_stage_def)
  next
    case (Inr sd)
    obtain s d where sd: "sd = (s, d)" by (cases sd)
    obtain e3 r3 where rf: "run_filters w argv s 0 d False = (e3, r3)"
      by (cases "run_filters w argv s 0 d False")
    show thesis
    proof (cases r3)
      case (Inl oc)
      with assms ps Inr sd rf failed [of e1 s d e3 oc] show thesis
        by (simp add: filter_stage_def)
    next
      case (Inr db)
      obtain d' skip where db: "db = (d', skip)" by (cases db)
      with assms ps \<open>r1 = Inr sd\<close> sd rf Inr filtered [of e1 s d e3 d' skip] show thesis
        by (simp add: filter_stage_def)
    qed
  qed
qed

lemma main_cases:
  assumes "main w g argv = (tr, oc)"
  obtains
    (stopped) "filter_stage w g argv = (tr, Inl oc)"
  | (finished) e1 s d skip e2 where "filter_stage w g argv = (e1, Inr (s, d, skip))"
      "render_stage w s d skip = (e2, oc)" "tr = e1 @ e2"
proof -
  obtain e1 r1 where fs: "filter_stage w g argv = (e1, r1)"
    by (cases "filter_stage w g argv")
  show thesis
  proof (cases r1)
    case (Inl oc')
    with assms fs stopped show thesis by (simp add: main_def)
  next
    case (Inr sds)
    obtain s d skip where sds: "sds = (s, d, skip)" by (cases sds)
    obtain e2 oc' where rs: "render_stage w s d skip = (e2, oc')"
      by (cases "render_stage w s d skip")
    with assms fs Inr sds finished [of e1 s d skip e2] show thesis
      by (simp add: main_def)
  qed
qed

lemma parse_stage_trace:
  assumes "parse_stage w g argv = (tr, r)"
  shows "trees_destroyed tr = 0 \<and> renders tr = 0 \<and> returns tr = [] \<and>
     \<not> load_failed tr \<and> \<not> invocation_failed tr \<and> set (live_counts 0 tr) = {0} \<and>
     live tr = 0 \<and> states_opened tr = 0 \<and> loads tr = 0 \<and>
     (case r of
        Inl oc \<Rightarrow> trees_created tr = 0 \<and> (oc = Exit 0 \<or> oc = Exit 1 \<or> oc = Undefined)
      | Inr sd \<Rightarrow> trees_created tr = 1 \<and> stdout_text tr = [])"
  using assms
proof (cases rule: parse_stage_cases)
  case (usage oc)
  from parse_args_Inl [OF usage(1)] have "list_all plain tr" and
    "oc = Exit 0 \<or> oc = Exit 1 \<or> oc = Undefined"
    by (simp_all add: is_output_plain)
  with usage(2) show ?thesis
    by (simp add: plain_created plain_destroyed plain_renders plain_returns
        plain_load_failed plain_invocation_failed plain_live plain_live_counts
        plain_states_opened plain_loads)
next
  case (input s e2 oc)
  from read_input_events [OF input(2)] have "list_all plain e2" and
    "oc = Exit 1 \<or> oc = Undefined"
    by simp_all
  with input(3,4) show ?thesis
    by (simp add: trace_Cons delta_def is_render_def plain_created plain_destroyed
        plain_renders plain_returns plain_load_failed plain_invocation_failed plain_live
        plain_live_counts plain_states_opened plain_loads)
next
  case (parsed s e2 d)
  from read_input_events [OF parsed(2)] have "list_all plain e2" and "stdout_text e2 = []"
    by simp_all
  with parsed(4,5) show ?thesis
    by (simp add: trace_Cons trace_append trace_Nil delta_def is_render_def
        live_counts_append plain_created plain_destroyed
        plain_renders plain_returns plain_load_failed plain_invocation_failed plain_live
        plain_live_counts plain_states_opened plain_loads)
qed

lemma filter_stage_trace:
  assumes "filter_stage w g argv = (tr, r)"
  shows "trees_destroyed tr = 0 \<and> renders tr = 0 \<and>
     (\<forall>c \<in> set (live_counts 0 tr). c = 0 \<or> c = 1) \<and> states_opened tr = loads tr \<and>
     (case r of
        Inl oc \<Rightarrow> trees_created tr \<le> 1 \<and> oc \<noteq> Exit 0 \<or> trees_created tr = 0
      | Inr sds \<Rightarrow> trees_created tr = 1 \<and> stdout_text tr = [] \<and> live tr = 0 \<and>
          \<not> load_failed tr \<and> \<not> invocation_failed tr)"
  using assms
proof (cases rule: filter_stage_cases)
  case (early oc)
  from parse_stage_trace [OF early(1)] early(2) show ?thesis by auto
next
  case (failed e1 s d e3 oc)
  from parse_stage_trace [OF failed(1)] run_filters_counts [OF failed(2)]
    run_filters_live [OF failed(2)] run_filters_failures [OF failed(2)] failed(3,4)
  show ?thesis
    by (auto simp: trace_append live_counts_append)
next
  case (filtered e1 s d e3 d' skip)
  from parse_stage_trace [OF filtered(1)] run_filters_counts [OF filtered(2)]
    run_filters_live [OF filtered(2)] run_filters_failures [OF filtered(2)] filtered(3,4)
  show ?thesis
    by (auto simp: trace_append live_counts_append)
qed

lemma is_render_Cons:
  assumes "is_render e"
  shows "trees_created (e # es) = trees_created es"
    "trees_destroyed (e # es) = trees_destroyed es"
    "states_opened (e # es) = states_opened es"
    "loads (e # es) = loads es"
    "returns (e # es) = returns es"
    "load_failed (e # es) = load_failed es"
    "invocation_failed (e # es) = invocation_failed es"
    "live (e # es) = live es"
    "live_counts c (e # es) = c # live_counts c es"
    "invoked_with w fmt cur p args (e # es) = invoked_with w fmt cur p args es"
  using assms by (cases e; simp add: is_render_def trace_Cons delta_def)+

lemma render_stage_trace:
  assumes "render_stage w s d skip = (es, oc)"
  shows "trees_created es = 0 \<and> live es = 0 \<and> set (live_counts c es) = {c} \<and>
     states_opened es = 0 \<and> loads es = 0 \<and> returns es = [] \<and>
     \<not> load_failed es \<and> \<not> invocation_failed es \<and>
     (oc = Exit 0 \<or> oc = Exit 1) \<and> (oc = Exit 1 \<longrightarrow> writer s = FORMAT_NONE) \<and>
     trees_destroyed es = (if oc = Exit 0 then 1 else 0) \<and>
     invoked_with w' fmt cur p [] es"
  using assms
proof (cases rule: render_stage_cases)
  case skipped
  then show ?thesis by (simp add: trace_Cons trace_Nil delta_def)
next
  case none
  then show ?thesis by (simp add: trace_Cons trace_Nil delta_def)
next
  case (rendered e out)
  show ?thesis
    unfolding rendered(4,5) is_render_Cons [OF rendered(3)]
    by (simp add: trace_Cons trace_Nil delta_def)
qed

lemma main_parsed_cases:
  assumes "main w g argv = (tr, oc)"
    and "parse_args w argv 1 (initial_locals w g argv) = (es, Inr s)"
  obtains
    (input) e2 where "read_input w argv s = (e2, Some oc)"
      "tr = Cmark_parser_new (options s) # e2"
  | (failed) e2 d e3 where "read_input w argv s = (e2, None)"
      "d = cmark_parser_finish w (options s) (fed e2)"
      "run_filters w argv s 0 d False = (e3, Inl oc)"
      "tr = Cmark_parser_new (options s) # e2 @ [Cmark_parser_finish d, Cmark_parser_free] @ e3"
  | (finished) e2 d e3 d' skip e4 where "read_input w argv s = (e2, None)"
      "d = cmark_parser_finish w (options s) (fed e2)"
      "run_filters w argv s 0 d False = (e3, Inr (d', skip))"
      "render_stage w s d' skip = (e4, oc)"
      "tr = Cmark_parser_new (options s) # e2 @ [Cmark_parser_finish d, Cmark_parser_free]
              @ e3 @ e4"
proof -
  from assms(2) have "es = []" by (rule parse_args_Inr)
  with assms(2) have pa: "parse_args w argv 1 (initial_locals w g argv) = ([], Inr s)"
    by simp
  obtain e2 r2 where ri: "read_input w argv s = (e2, r2)"
    by (cases "read_input w argv s")
  show thesis
  proof (cases r2)
    case (Some oc')
    with assms(1) pa ri have "tr = Cmark_parser_new (options s) # e2" and "oc' = oc"
      by (simp_all add: main_def filter_stage_def parse_stage_def)
    with ri Some show thesis by (intro input [of e2]) simp_all
  next
    case None
    define d where "d = cmark_parser_finish w (options s) (fed e2)"
    from pa ri None have ps: "parse_stage w g argv =
        (Cmark_parser_new (options s) # e2 @ [Cmark_parser_finish d, Cmark_parser_free],
         Inr (s, d))"
      by (simp add: parse_stage_def d_def Let_def)
    obtain e3 r3 where rf: "run_filters w argv s 0 d False = (e3, r3)"
      by (cases "run_filters w argv s 0 d False")
    show thesis
    proof (cases r3)
      case (Inl oc')
      with assms(1) ps rf have
        "tr = Cmark_parser_new (options s) # e2 @ [Cmark_parser_finish d, Cmark_parser_free] @ e3"
        and "oc' = oc"
        by (simp_all add: main_def filter_stage_def)
      with ri None rf Inl d_def show thesis by (intro failed [of e2 d e3]) simp_all
    next
      case (Inr db)
      obtain d' skip where db: "db = (d', skip)" by (cases db)
      obtain e4 oc' where rs: "render_stage w s d' skip = (e4, oc')"
        by (cases "render_stage w s d' skip")
      with assms(1) ps rf Inr db have
        "tr = Cmark_parser_new (options s) # e2 @ [Cmark_parser_finish d, Cmark_parser_free]
               @ e3 @ e4"
        and "oc' = oc"
        by (simp_all add: main_def filter_stage_def)
      with ri None rf Inr db rs d_def show thesis
        by (intro finished [of e2 d e3 d' skip e4]) simp_all
    qed
  qed
qed

lemma arg_step_width_unparsed:
  assumes "argv ! i = ''--width''" and "i + 1 < length argv"
    and "snd (strtol w (argv ! (i + 1))) \<noteq> []"
  shows "\<exists>m. m \<noteq> [] \<and> arg_step w argv i s = Stop [Stderr m] (Exit 1)"
  using assms by (auto simp: arg_step_def Let_def split: prod.splits)

lemma main_stops_in_arguments:
  "parse_args w argv 1 (initial_locals w g argv) = (es, Inl oc) \<Longrightarrow> main w g argv = (es, oc)"
  by (simp add: main_def filter_stage_def parse_stage_def)

section \<open>The input, when \<^verbatim>\<open>numfps\<close> starts at 0\<close>

lemma fed_append: "fed (xs @ ys) = fed xs @ fed ys"
  by (induction xs rule: fed.induct) simp_all

lemma feed_stream_Nil: "feed_stream [] = []"
  by (subst feed_stream.simps) simp

lemma feed_stream_short:
  "0 < length bytes \<Longrightarrow> length bytes < 4096 \<Longrightarrow> feed_stream bytes = [Cmark_parser_feed bytes]"
  by (subst feed_stream.simps) (simp add: Let_def)

lemma feed_stream_full:
  "4096 \<le> length bytes \<Longrightarrow>
     feed_stream bytes = Cmark_parser_feed (take 4096 bytes) # feed_stream (drop 4096 bytes)"
  by (subst feed_stream.simps) (auto simp: Let_def)

lemma feed_stream_chunks:
  "concat (fed (feed_stream bytes :: 'd event list)) = bytes \<and>
   list_all (\<lambda>c. 0 < length c \<and> length c \<le> 4096) (fed (feed_stream bytes :: 'd event list)) \<and>
   list_all (\<lambda>c. length c = 4096) (butlast (fed (feed_stream bytes :: 'd event list)))"
proof (induction "length bytes" arbitrary: bytes rule: less_induct)
  case less
  consider (empty) "bytes = []" | (short) "0 < length bytes" "length bytes < 4096"
    | (full) "4096 \<le> length bytes"
    by (cases "bytes = []"; cases "length bytes < 4096") simp_all
  then show ?case
  proof cases
    case empty
    then show ?thesis by (simp add: feed_stream_Nil)
  next
    case short
    then show ?thesis by (simp add: feed_stream_short)
  next
    case full
    then have "length (drop 4096 bytes) < length bytes" by simp
    moreover from full have "bytes \<noteq> []" by auto
    ultimately show ?thesis
      using less.hyps [of "drop 4096 bytes"] full by (simp add: feed_stream_full [OF full])
  qed
qed

lemma arg_step_files:
  "arg_step w argv i s = Next i' s' \<Longrightarrow>
     (i' = i + 1 \<and> i + 1 < length argv \<and>
      (argv ! i = ''--lua'' \<or> argv ! i = ''--width'' \<or> argv ! i = ''-t'' \<or> argv ! i = ''--to'') \<and>
      files s' = files s \<and> numfps s' = numfps s)
   \<or> (i' = i \<and>
      \<not> (argv ! i = ''--lua'' \<or> argv ! i = ''--width'' \<or> argv ! i = ''-t'' \<or> argv ! i = ''--to'') \<and>
      argv ! i \<noteq> [] \<and> hd (argv ! i) = CHR ''-'' \<and>
      files s' = files s \<and> numfps s' = numfps s)
   \<or> (i' = i \<and>
      \<not> (argv ! i = ''--lua'' \<or> argv ! i = ''--width'' \<or> argv ! i = ''-t'' \<or> argv ! i = ''--to'') \<and>
      \<not> (argv ! i \<noteq> [] \<and> hd (argv ! i) = CHR ''-'') \<and>
      store (files s) (numfps s) (int i) = Some (files s') \<and> numfps s' = numfps s + 1)"
  unfolding arg_step_def Let_def
  by (clarsimp split: if_splits option.splits prod.splits)

lemma positional_operand:
  "a = ''--lua'' \<or> a = ''--width'' \<or> a = ''-t'' \<or> a = ''--to'' \<Longrightarrow>
     positional (a # b # rest) = positional rest"
  by simp

lemma positional_flag:
  "\<not> (a = ''--lua'' \<or> a = ''--width'' \<or> a = ''-t'' \<or> a = ''--to'') \<Longrightarrow>
     a \<noteq> [] \<and> hd a = CHR ''-'' \<Longrightarrow> positional (a # rest) = positional rest"
  by (cases rest) simp_all

lemma positional_file:
  "\<not> (a = ''--lua'' \<or> a = ''--width'' \<or> a = ''-t'' \<or> a = ''--to'') \<Longrightarrow>
     \<not> (a \<noteq> [] \<and> hd a = CHR ''-'') \<Longrightarrow> positional (a # rest) = a # positional rest"
  by (cases rest) simp_all

lemma files_recorded_store:
  assumes "files_recorded argv i s" and "i < length argv"
    and "store (files s) (numfps s) (int i) = Some fs" and "numfps s' = numfps s + 1"
    and "files s' = fs"
  shows "files_recorded argv (i + 1) s' \<and>
     file_names argv s' 0 = file_names argv s 0 @ [argv ! i]"
proof -
  from assms(1) have n: "0 \<le> numfps s" "numfps s < int i" "length (files s) = length argv"
    "numfps s \<le> int (length argv)"
    and cells: "\<forall>k < nat (numfps s). \<exists>j. files s ! k = Some j \<and> 0 \<le> j \<and> j < int (length argv)"
    by (simp_all add: files_recorded_def)
  from assms(3,5) n assms(2) have fs: "files s' = (files s)[nat (numfps s) := Some (int i)]"
    by (simp add: store_def split: if_splits)
  have upto: "[0 ..< nat (numfps s')] = [0 ..< nat (numfps s)] @ [nat (numfps s)]"
    using n(1) assms(4) by (simp add: nat_add_distrib)
  have old: "files s' ! k = files s ! k" if "k < nat (numfps s)" for k
    using that fs by simp
  have new: "files s' ! nat (numfps s) = Some (int i)"
    using fs n assms(2) by simp
  have "\<exists>j. files s' ! k = Some j \<and> 0 \<le> j \<and> j < int (length argv)"
    if "k < nat (numfps s')" for k
  proof -
    from that have "k < nat (numfps s) \<or> k = nat (numfps s)"
      using n(1) assms(4) by auto
    then show ?thesis
      using cells old new assms(2) by auto
  qed
  with n assms(2,4) fs have "files_recorded argv (i + 1) s'"
    by (simp add: files_recorded_def)
  moreover have "file_names argv s' 0 = file_names argv s 0 @ [argv ! i]"
    unfolding file_names_def upto using old new by simp
  ultimately show ?thesis by simp
qed

lemma parse_args_positional:
  "parse_args w argv i s = (es, Inr s') \<Longrightarrow> files_recorded argv i s \<Longrightarrow>
     (\<exists>n. files_recorded argv n s') \<and>
     file_names argv s' 0 = file_names argv s 0 @ positional (drop i argv)"
proof (induction w argv i s rule: parse_args.induct)
  case (1 w argv i s)
  show ?case
  proof (cases "i < length argv")
    case False
    with "1.prems" show ?thesis
      by (auto simp: parse_args.simps [of w argv i s])
  next
    case True
    show ?thesis
    proof (cases "arg_step w argv i s")
      case (Stop es' oc)
      with True "1.prems" show ?thesis
        by (simp add: parse_args.simps [of w argv i s])
    next
      case (Next i' s1)
      with True "1.prems" have run: "parse_args w argv (i' + 1) s1 = (es, Inr s')"
        by (simp add: parse_args.simps [of w argv i s])
      note IH = "1.IH" [OF True Next run]
      from True have here: "drop i argv = argv ! i # drop (i + 1) argv"
        by (simp add: Cons_nth_drop_Suc)
      from arg_step_files [OF Next] consider
        (operand) "i' = i + 1" "i + 1 < length argv"
          "argv ! i = ''--lua'' \<or> argv ! i = ''--width'' \<or> argv ! i = ''-t'' \<or> argv ! i = ''--to''"
          "files s1 = files s" "numfps s1 = numfps s"
      | (flag) "i' = i"
          "\<not> (argv ! i = ''--lua'' \<or> argv ! i = ''--width'' \<or> argv ! i = ''-t'' \<or> argv ! i = ''--to'')"
          "argv ! i \<noteq> [] \<and> hd (argv ! i) = CHR ''-''"
          "files s1 = files s" "numfps s1 = numfps s"
      | (name) "i' = i"
          "\<not> (argv ! i = ''--lua'' \<or> argv ! i = ''--width'' \<or> argv ! i = ''-t'' \<or> argv ! i = ''--to'')"
          "\<not> (argv ! i \<noteq> [] \<and> hd (argv ! i) = CHR ''-'')"
          "store (files s) (numfps s) (int i) = Some (files s1)" "numfps s1 = numfps s + 1"
        by blast
      then show ?thesis
      proof cases
        case operand
        from operand(1,2) here
        have "drop i argv = argv ! i # argv ! (i + 1) # drop (i' + 1) argv"
          by (simp add: Cons_nth_drop_Suc)
        then have "positional (drop i argv) = positional (drop (i' + 1) argv)"
          using positional_operand [OF operand(3)] by simp
        moreover from "1.prems"(2) operand(1,2,4,5) have "files_recorded argv (i' + 1) s1"
          and "file_names argv s1 0 = file_names argv s 0"
          by (simp_all add: files_recorded_def file_names_def)
        ultimately show ?thesis using IH by simp
      next
        case flag
        have "positional (drop i argv) = positional (drop (i' + 1) argv)"
          unfolding here flag(1) by (rule positional_flag [OF flag(2,3)])
        moreover from "1.prems"(2) flag(1,4,5) have "files_recorded argv (i' + 1) s1"
          and "file_names argv s1 0 = file_names argv s 0"
          by (simp_all add: files_recorded_def file_names_def)
        ultimately show ?thesis using IH by simp
      next
        case name
        have "positional (drop i argv) = argv ! i # positional (drop (i' + 1) argv)"
          unfolding here name(1) by (rule positional_file [OF name(2,3)])
        moreover from files_recorded_store [OF "1.prems"(2) True name(4,5) refl] name(1)
        have "files_recorded argv (i' + 1) s1"
          and "file_names argv s1 0 = file_names argv s 0 @ [argv ! i]"
          by simp_all
        ultimately show ?thesis using IH by simp
      qed
    qed
  qed
qed

lemma read_files_named:
  assumes "files_recorded argv n s"
  shows "read_files w argv s i = read_named w (file_names argv s i)"
proof (induction "nat (numfps s) - i" arbitrary: i rule: less_induct)
  case less
  show ?case
  proof (cases "int i < numfps s")
    case False
    then show ?thesis
      by (simp add: read_files.simps [of w argv s i] file_names_def)
  next
    case True
    then have i: "i < nat (numfps s)" by simp
    with assms obtain j where j: "files s ! i = Some j" "0 \<le> j" "j < int (length argv)"
      by (auto simp: files_recorded_def)
    from assms i have "i < length (files s)"
      by (auto simp: files_recorded_def)
    with j True have cell: "fetch (files s) (int i) = Some j"
      by (simp add: fetch_def)
    from j have name: "argv_at argv j = Some (argv ! nat j)"
      by (simp add: argv_at_def)
    from i have names: "file_names argv s i = argv ! nat j # file_names argv s (i + 1)"
      by (simp add: file_names_def upt_conv_Cons j(1))
    from True have "nat (numfps s) - (i + 1) < nat (numfps s) - i" by linarith
    from less.hyps [OF this] True cell name show ?thesis
      by (simp add: read_files.simps [of w argv s i] names split: sum.splits)
  qed
qed

lemma input_as_specified_when_numfps_starts_at_0:
  assumes "parse_args w argv 1 (initial_locals w 0 argv) = (es, Inr s)"
  shows "file_names argv s 0 = positional (tl argv) \<and>
     read_input w argv s = read_as_specified w (positional (tl argv))"
proof -
  have start: "files_recorded argv 1 (initial_locals w 0 argv)"
    by (simp add: files_recorded_def initial_locals_def)
  have none: "file_names argv (initial_locals w 0 argv) 0 = []"
    by (simp add: file_names_def initial_locals_def)
  from parse_args_positional [OF assms start] none
  obtain n where rec: "files_recorded argv n s"
    and names: "file_names argv s 0 = positional (tl argv)"
    by (auto simp: drop_Suc)
  from rec have "numfps s = 0 \<longleftrightarrow> file_names argv s 0 = []"
    by (auto simp: files_recorded_def file_names_def)
  with read_files_named [OF rec, of w 0] names show ?thesis
    by (auto simp: read_input_def read_as_specified_def split: prod.splits option.splits)
qed

lemma run_filters_fed:
  "run_filters w argv s i d b = (tr, r) \<Longrightarrow> fed tr = []"
proof (induction "nat (numluafps s) - i" arbitrary: i d b tr r rule: less_induct)
  case less
  from less.prems show ?case
  proof (cases rule: run_filters_cases)
    case (returned path es)
    from returned(1) have "nat (numluafps s) - (i + 1) < nat (numluafps s) - i" by linarith
    from less.hyps [OF this returned(3)] returned(4) show ?thesis
      by simp
  qed simp_all
qed

lemma render_stage_fed:
  assumes "render_stage w s d skip = (es, oc)"
  shows "fed es = []"
  using assms
proof (cases rule: render_stage_cases)
  case (rendered e out)
  from rendered(3) have "fed (e # es') = fed es'" for es'
    by (cases e) (simp_all add: is_render_def)
  with rendered(4) show ?thesis by simp
qed simp_all

lemma feeds_precede_finish:
  assumes "main w g argv = (tr, oc)"
    and "parse_args w argv 1 (initial_locals w g argv) = (es, Inr s)"
  shows "\<exists>post. tr = Cmark_parser_new (options s) # fst (read_input w argv s) @ post \<and>
     fed post = [] \<and> trees_created (fst (read_input w argv s)) = 0"
  using assms
proof (cases rule: main_parsed_cases)
  case (input e2)
  from read_input_events [OF input(1)] have "trees_created e2 = 0"
    by (simp add: plain_created)
  with input show ?thesis by simp
next
  case (failed e2 d e3)
  from read_input_events [OF failed(1)] have "trees_created e2 = 0"
    by (simp add: plain_created)
  with failed run_filters_fed [OF failed(3)] show ?thesis by simp
next
  case (finished e2 d e3 d' skip e4)
  from read_input_events [OF finished(1)] have "trees_created e2 = 0"
    by (simp add: plain_created)
  with finished run_filters_fed [OF finished(3)] render_stage_fed [OF finished(4)]
  show ?thesis by (simp add: fed_append)
qed

lemma input_protocol_when_numfps_starts_at_0:
  assumes "main w 0 argv = (tr, oc)"
    and "parse_args w argv 1 (initial_locals w 0 argv) = (es, Inr s)"
  shows "\<exists>post. tr = Cmark_parser_new (options s) #
           fst (read_as_specified w (positional (tl argv))) @ post \<and>
         fed post = []"
  using feeds_precede_finish [OF assms] input_as_specified_when_numfps_starts_at_0 [OF assms(2)]
  by auto

section \<open>Defined behaviour, when \<^verbatim>\<open>numfps\<close> starts at 0\<close>

lemma arg_step_Undefined:
  "arg_step w argv i s = Stop es Undefined \<Longrightarrow>
     (argv ! i = ''--lua'' \<and> i + 1 < length argv \<and>
      store (luafiles s) (numluafps s) (int (i + 1)) = None)
   \<or> store (files s) (numfps s) (int i) = None"
  unfolding arg_step_def Let_def
  by (clarsimp split: if_splits option.splits prod.splits)

lemma filters_recorded_store:
  assumes "filters_recorded argv i s" and "i + 1 < length argv"
    and "store (luafiles s) (numluafps s) (int (i + 1)) = Some fs"
    and "numluafps s' = numluafps s + 1" and "luafiles s' = fs"
  shows "filters_recorded argv (i + 1 + 1) s'"
proof -
  from assms(1) have n: "0 \<le> numluafps s" "numluafps s < int i"
    "length (luafiles s) = length argv" "numluafps s \<le> int (length argv)"
    and cells: "\<forall>k < nat (numluafps s).
      \<exists>j. luafiles s ! k = Some j \<and> 0 \<le> j \<and> j < int (length argv)"
    by (simp_all add: filters_recorded_def)
  from assms(3,5) n assms(2)
  have fs: "luafiles s' = (luafiles s)[nat (numluafps s) := Some (int (i + 1))]"
    by (simp add: store_def split: if_splits)
  have old: "luafiles s' ! k = luafiles s ! k" if "k < nat (numluafps s)" for k
    using that fs by simp
  have new: "luafiles s' ! nat (numluafps s) = Some (int (i + 1))"
    using fs n assms(2) by simp
  have "\<exists>j. luafiles s' ! k = Some j \<and> 0 \<le> j \<and> j < int (length argv)"
    if "k < nat (numluafps s')" for k
  proof -
    from that have "k < nat (numluafps s) \<or> k = nat (numluafps s)"
      using n(1) assms(4) by auto
    then show ?thesis
      using cells old new assms(2) by auto
  qed
  with n assms(2,4) fs show ?thesis
    by (simp add: filters_recorded_def)
qed

lemma loop_at_recorded:
  "loop_at w 0 argv i s \<Longrightarrow> files_recorded argv i s \<and> filters_recorded argv i s"
proof (induction rule: loop_at.induct)
  case loop_start
  show ?case
    by (simp add: files_recorded_def filters_recorded_def initial_locals_def)
next
  case (loop_next i s i' s')
  note step = arg_step_Next [OF loop_next.hyps(3)] arg_step_files [OF loop_next.hyps(3)]
  from loop_next.IH have f: "files_recorded argv i s" and l: "filters_recorded argv i s"
    by simp_all
  have "files_recorded argv (i' + 1) s'"
  proof (cases "files s' = files s \<and> numfps s' = numfps s")
    case True
    with f step(1) show ?thesis by (auto simp: files_recorded_def)
  next
    case False
    with step(2) have "i' = i" "store (files s) (numfps s) (int i) = Some (files s')"
      "numfps s' = numfps s + 1"
      by auto
    with files_recorded_store [OF f loop_next.hyps(2) this(2,3) refl] show ?thesis by simp
  qed
  moreover have "filters_recorded argv (i' + 1) s'"
  proof (cases "luafiles s' = luafiles s \<and> numluafps s' = numluafps s")
    case True
    with l step(1) show ?thesis by (auto simp: filters_recorded_def)
  next
    case False
    with step(1) have "i' = i + 1" "i + 1 < length argv"
      "store (luafiles s) (numluafps s) (int (i + 1)) = Some (luafiles s')"
      "numluafps s' = numluafps s + 1"
      by auto
    with filters_recorded_store [OF l this(2,3,4) refl] show ?thesis by simp
  qed
  ultimately show ?case by simp
qed

lemma parse_args_defined:
  "parse_args w argv i s = (es, Inl oc) \<Longrightarrow> loop_at w 0 argv i s \<Longrightarrow> oc \<noteq> Undefined"
proof (induction w argv i s rule: parse_args.induct)
  case (1 w argv i s)
  show ?case
  proof (cases "i < length argv")
    case False
    with "1.prems" show ?thesis by (simp add: parse_args.simps [of w argv i s])
  next
    case True
    show ?thesis
    proof (cases "arg_step w argv i s")
      case (Stop es' oc')
      with True "1.prems" have same: "oc' = oc"
        by (simp add: parse_args.simps [of w argv i s])
      show ?thesis
      proof
        assume "oc = Undefined"
        with Stop same have "arg_step w argv i s = Stop es' Undefined" by simp
        from arg_step_Undefined [OF this] loop_at_recorded [OF "1.prems"(2)] True
        show False
          by (auto simp: store_def files_recorded_def filters_recorded_def)
      qed
    next
      case (Next i' s')
      with True "1.prems" have "parse_args w argv (i' + 1) s' = (es, Inl oc)"
        by (simp add: parse_args.simps [of w argv i s])
      moreover from "1.prems"(2) True Next have "loop_at w 0 argv (i' + 1) s'"
        by (rule loop_next)
      ultimately show ?thesis using "1.IH" True Next by simp
    qed
  qed
qed

lemma read_named_defined: "read_named w names = (es, r) \<Longrightarrow> r \<noteq> Some Undefined"
  by (induction names arbitrary: es r) (auto split: sum.splits prod.splits)

lemma run_filters_defined:
  assumes "filters_recorded argv n s"
  shows "run_filters w argv s i d b = (tr, r) \<Longrightarrow> r \<noteq> Inl Undefined"
proof (induction "nat (numluafps s) - i" arbitrary: i d b tr r rule: less_induct)
  case less
  from less.prems show ?case
  proof (cases rule: run_filters_cases)
    case undefined
    from undefined(1) have i: "i < nat (numluafps s)" by simp
    with assms obtain j where j: "luafiles s ! i = Some j" "0 \<le> j" "j < int (length argv)"
      by (auto simp: filters_recorded_def)
    from assms i have "i < length (luafiles s)"
      by (auto simp: filters_recorded_def)
    with j undefined(1) have cell: "fetch (luafiles s) (int i) = Some j"
      by (simp add: fetch_def)
    from j have name: "argv_at argv j = Some (argv ! nat j)"
      by (simp add: argv_at_def)
    from less.prems undefined(1,2) cell name have False
      by (simp add: run_filters.simps [of w argv s i d b] Let_def
          split: if_splits prod.splits)
    then show ?thesis ..
  next
    case (returned path es)
    from returned(1) have "nat (numluafps s) - (i + 1) < nat (numluafps s) - i" by linarith
    from less.hyps [OF this returned(3)] show ?thesis .
  qed simp_all
qed

lemma no_undefined_behaviour_when_numfps_starts_at_0:
  assumes "main w 0 argv = (tr, oc)"
  shows "oc = Exit 0 \<or> oc = Exit 1 \<or> oc = Exit 3 \<or> oc = Exit 5"
proof -
  obtain es r where pa: "parse_args w argv 1 (initial_locals w 0 argv) = (es, r)"
    by (cases "parse_args w argv 1 (initial_locals w 0 argv)")
  show ?thesis
  proof (cases r)
    case (Inl oc')
    with pa main_stops_in_arguments [of w argv 0 es oc'] assms have "oc' = oc" by simp
    with pa Inl parse_args_Inl [of w argv 1 _ es oc]
      parse_args_defined [OF _ loop_start, of w argv es oc]
    show ?thesis by auto
  next
    case (Inr s)
    with pa have ended: "parse_args w argv 1 (initial_locals w 0 argv) = (es, Inr s)" by simp
    from parse_args_loop_at [OF ended loop_start [of w 0 argv]]
    obtain n where at: "loop_at w 0 argv n s" by blast
    note rec = loop_at_recorded [OF at]
    from input_as_specified_when_numfps_starts_at_0 [OF ended]
    have reading: "read_input w argv s = read_as_specified w (positional (tl argv))" by simp
    from assms ended show ?thesis
    proof (cases rule: main_parsed_cases)
      case (input e2)
      with reading read_named_defined [of w "positional (tl argv)" e2 "Some oc"]
        read_input_events [OF input(1)]
      show ?thesis by (auto simp: read_as_specified_def split: if_splits)
    next
      case (failed e2 d e3)
      from run_filters_failures [OF failed(3)] run_filters_defined [OF conjunct2 [OF rec] failed(3)]
      show ?thesis by auto
    next
      case (finished e2 d e3 d' skip e4)
      from render_stage_trace [OF finished(4)] show ?thesis by auto
    qed
  qed
qed

section \<open>The command line, as the argument loop reads it\<close>

lemma arg_step_operands:
  "arg_step w argv i s = Next i' s' \<Longrightarrow>
     (i' = i + 1 \<and> i + 1 < length argv \<and> argv ! i = ''--lua'' \<and>
      store (luafiles s) (numluafps s) (int (i + 1)) = Some (luafiles s') \<and>
      numluafps s' = numluafps s + 1 \<and> format s' = format s \<and> width s' = width s)
   \<or> (i' = i + 1 \<and> i + 1 < length argv \<and> argv ! i = ''--width'' \<and>
      luafiles s' = luafiles s \<and> numluafps s' = numluafps s \<and> format s' = format s \<and>
      width s' = int_of_long (fst (strtol w (argv ! (i + 1)))))
   \<or> (i' = i + 1 \<and> i + 1 < length argv \<and> (argv ! i = ''-t'' \<or> argv ! i = ''--to'') \<and>
      luafiles s' = luafiles s \<and> numluafps s' = numluafps s \<and>
      format s' = argv ! (i + 1) \<and> width s' = width s)
   \<or> (i' = i \<and>
      \<not> (argv ! i = ''--lua'' \<or> argv ! i = ''--width'' \<or> argv ! i = ''-t'' \<or> argv ! i = ''--to'') \<and>
      luafiles s' = luafiles s \<and> numluafps s' = numluafps s \<and> format s' = format s \<and>
      width s' = width s)"
  unfolding arg_step_def Let_def
  by (clarsimp split: if_splits option.splits prod.splits)

lemma resolved_other:
  assumes "\<not> (a = ''--lua'' \<or> a = ''--width'' \<or> a = ''-t'' \<or> a = ''--to'')"
  shows "lua_operands (a # rest) = lua_operands rest"
    "resolved_format f (a # rest) = resolved_format f rest"
    "resolved_width w v (a # rest) = resolved_width w v rest"
  using assms by (cases rest; simp)+

lemma trace_loaded:
  "loaded [] = []" "loaded (xs @ ys) = loaded xs @ loaded ys"
  "invocations [] = 0" "invocations (xs @ ys) = invocations xs + invocations ys"
  by (simp_all add: loaded_def invocations_def)

lemma trace_loaded_Cons:
  "loaded (e # es) = (case e of LuaL_loadfile p st \<Rightarrow> [p] | _ \<Rightarrow> []) @ loaded es"
  "invocations (e # es) =
     (case e of Lua_pcall n r st \<Rightarrow> if n = 0 then 0 else 1 | _ \<Rightarrow> 0) + invocations es"
  by (cases e; simp add: loaded_def invocations_def)+

lemma plain_loaded: "list_all plain es \<Longrightarrow> loaded es = [] \<and> invocations es = 0"
  by (induction es) (auto simp: plain_def trace_loaded trace_loaded_Cons split: event.splits)

lemma filters_recorded_names:
  assumes "filters_recorded argv i s" and "i + 1 < length argv"
    and "store (luafiles s) (numluafps s) (int (i + 1)) = Some (luafiles s')"
    and "numluafps s' = numluafps s + 1"
  shows "filter_names argv s' 0 = filter_names argv s 0 @ [argv ! (i + 1)]"
proof -
  from assms(1) have n: "0 \<le> numluafps s" "numluafps s < int i"
    "length (luafiles s) = length argv"
    by (simp_all add: filters_recorded_def)
  from assms(3) n assms(2)
  have fs: "luafiles s' = (luafiles s)[nat (numluafps s) := Some (int (i + 1))]"
    by (simp add: store_def split: if_splits)
  have upto: "[0 ..< nat (numluafps s')] = [0 ..< nat (numluafps s)] @ [nat (numluafps s)]"
    using n(1) assms(4) by (simp add: nat_add_distrib)
  have old: "luafiles s' ! k = luafiles s ! k" if "k < nat (numluafps s)" for k
    using that fs by simp
  have new: "luafiles s' ! nat (numluafps s) = Some (int (i + 1))"
    using fs n assms(2) by simp
  show ?thesis
    unfolding filter_names_def upto using old new by (simp add: nat_add_distrib)
qed

lemma parse_args_resolved:
  "parse_args w argv i s = (es, Inr s') \<Longrightarrow> filters_recorded argv i s \<Longrightarrow>
     (\<exists>n. filters_recorded argv n s') \<and>
     filter_names argv s' 0 = filter_names argv s 0 @ lua_operands (drop i argv) \<and>
     format s' = resolved_format (format s) (drop i argv) \<and>
     width s' = resolved_width w (width s) (drop i argv)"
proof (induction w argv i s rule: parse_args.induct)
  case (1 w argv i s)
  show ?case
  proof (cases "i < length argv")
    case False
    with "1.prems" show ?thesis
      by (auto simp: parse_args.simps [of w argv i s])
  next
    case True
    show ?thesis
    proof (cases "arg_step w argv i s")
      case (Stop es' oc)
      with True "1.prems" show ?thesis
        by (simp add: parse_args.simps [of w argv i s])
    next
      case (Next i' s1)
      with True "1.prems" have run: "parse_args w argv (i' + 1) s1 = (es, Inr s')"
        by (simp add: parse_args.simps [of w argv i s])
      note IH = "1.IH" [OF True Next run]
      from True have here: "drop i argv = argv ! i # drop (i + 1) argv"
        by (simp add: Cons_nth_drop_Suc)
      have two: "drop i argv = argv ! i # argv ! (i + 1) # drop (i + 1 + 1) argv"
        if "i + 1 < length argv"
        using that here by (simp add: Cons_nth_drop_Suc)
      from arg_step_operands [OF Next] consider
        (lua) "i' = i + 1" "i + 1 < length argv" "argv ! i = ''--lua''"
          "store (luafiles s) (numluafps s) (int (i + 1)) = Some (luafiles s1)"
          "numluafps s1 = numluafps s + 1" "format s1 = format s" "width s1 = width s"
      | (width) "i' = i + 1" "i + 1 < length argv" "argv ! i = ''--width''"
          "luafiles s1 = luafiles s" "numluafps s1 = numluafps s" "format s1 = format s"
          "width s1 = int_of_long (fst (strtol w (argv ! (i + 1))))"
      | (to) "i' = i + 1" "i + 1 < length argv" "argv ! i = ''-t'' \<or> argv ! i = ''--to''"
          "luafiles s1 = luafiles s" "numluafps s1 = numluafps s"
          "format s1 = argv ! (i + 1)" "width s1 = width s"
      | (other) "i' = i"
          "\<not> (argv ! i = ''--lua'' \<or> argv ! i = ''--width'' \<or> argv ! i = ''-t'' \<or> argv ! i = ''--to'')"
          "luafiles s1 = luafiles s" "numluafps s1 = numluafps s" "format s1 = format s"
          "width s1 = width s"
        by blast
      then show ?thesis
      proof cases
        case lua
        from filters_recorded_store [OF "1.prems"(2) lua(2,4,5) refl] lua(1)
        have rec: "filters_recorded argv (i' + 1) s1" by simp
        from filters_recorded_names [OF "1.prems"(2) lua(2,4,5)]
        have names: "filter_names argv s1 0 = filter_names argv s 0 @ [argv ! (i + 1)]" .
        from IH [OF rec] names lua show ?thesis
          by (simp add: two [OF lua(2)])
      next
        case width
        from "1.prems"(2) width have rec: "filters_recorded argv (i' + 1) s1"
          and "filter_names argv s1 0 = filter_names argv s 0"
          by (simp_all add: filters_recorded_def filter_names_def)
        with IH [OF rec] width show ?thesis
          by (simp add: two [OF width(2)])
      next
        case to
        from "1.prems"(2) to have rec: "filters_recorded argv (i' + 1) s1"
          and "filter_names argv s1 0 = filter_names argv s 0"
          by (simp_all add: filters_recorded_def filter_names_def)
        with IH [OF rec] to show ?thesis
          by (auto simp: two [OF to(2)])
      next
        case other
        from "1.prems"(2) other have rec: "filters_recorded argv (i' + 1) s1"
          and "filter_names argv s1 0 = filter_names argv s 0"
          by (simp_all add: filters_recorded_def filter_names_def)
        with IH [OF rec] other(1,5,6) show ?thesis
          by (simp add: here resolved_other [OF other(2)])
      qed
    qed
  qed
qed

lemma parse_args_resolves_command_line:
  assumes "parse_args w argv 1 (initial_locals w g argv) = (es, Inr s)"
  shows "(\<exists>n. filters_recorded argv n s) \<and>
     filter_names argv s 0 = lua_operands (tl argv) \<and>
     format s = resolved_format ''html'' (tl argv) \<and>
     width s = resolved_width w 0 (tl argv)"
proof -
  have start: "filters_recorded argv 1 (initial_locals w g argv)"
    by (simp add: filters_recorded_def initial_locals_def)
  from parse_args_resolved [OF assms start] show ?thesis
    by (simp add: drop_Suc filter_names_def initial_locals_def)
qed

lemma run_filters_first_load:
  assumes "int i < numluafps s" and "fetch (luafiles s) (int i) = Some j"
    and "argv_at argv j = Some p" and "run_filters w argv s i d b = (tr, r)"
  shows "\<exists>st rest. tr = LuaL_newstate # LuaL_openlibs # LuaL_requiref ''utf8'' #
            LuaL_requiref ''cmark'' # LuaL_loadfile p st # rest"
  using assms
  by (auto simp: run_filters.simps [of w argv s i d b] Let_def split: if_splits prod.splits)

lemma run_filters_loaded:
  assumes "filters_recorded argv n s"
  shows "run_filters w argv s i d b = (tr, r) \<Longrightarrow>
     loaded tr = take (length (loaded tr)) (filter_names argv s i) \<and>
     (\<forall>d' b'. r = Inr (d', b') \<longrightarrow>
        loaded tr = filter_names argv s i \<and> invocations tr = length (filter_names argv s i))"
proof (induction "nat (numluafps s) - i" arbitrary: i d b tr r rule: less_induct)
  case less
  show ?case
  proof (cases "int i < numluafps s")
    case False
    with less.prems show ?thesis
      by (simp add: run_filters.simps [of w argv s i d b] trace_loaded filter_names_def)
  next
    case True
    then have i: "i < nat (numluafps s)" by simp
    with assms obtain j where j: "luafiles s ! i = Some j" "0 \<le> j" "j < int (length argv)"
      by (auto simp: filters_recorded_def)
    from assms i have "i < length (luafiles s)"
      by (auto simp: filters_recorded_def)
    with j True have cell: "fetch (luafiles s) (int i) = Some j"
      by (simp add: fetch_def)
    from j have name: "argv_at argv j = Some (argv ! nat j)"
      by (simp add: argv_at_def)
    from i have names: "filter_names argv s i = argv ! nat j # filter_names argv s (i + 1)"
      by (simp add: filter_names_def upt_conv_Cons j(1))
    from run_filters_first_load [OF True cell name less.prems]
    obtain st rest where first: "tr = LuaL_newstate # LuaL_openlibs # LuaL_requiref ''utf8'' #
            LuaL_requiref ''cmark'' # LuaL_loadfile (argv ! nat j) st # rest"
      by blast
    from less.prems show ?thesis
    proof (cases rule: run_filters_cases)
      case finished
      with True show ?thesis by simp
    next
      case undefined
      with first show ?thesis by simp
    next
      case (load path st')
      with first have "path = argv ! nat j" by simp
      with load names show ?thesis by (simp add: trace_loaded trace_loaded_Cons)
    next
      case (chunk path st')
      with first have "path = argv ! nat j" by simp
      with chunk names show ?thesis by (simp add: trace_loaded trace_loaded_Cons)
    next
      case (raised path st' msg)
      with first have "path = argv ! nat j" by simp
      with raised names show ?thesis by (simp add: trace_loaded trace_loaded_Cons)
    next
      case (returned path es)
      with first have path: "path = argv ! nat j" by simp
      from True have "nat (numluafps s) - (i + 1) < nat (numluafps s) - i" by linarith
      from less.hyps [OF this returned(3)] returned(4) path names show ?thesis
        by (simp add: trace_loaded trace_loaded_Cons)
    qed
  qed
qed

lemma render_stage_loaded:
  assumes "render_stage w s d skip = (es, oc)"
  shows "loaded es = [] \<and> invocations es = 0"
  using assms
proof (cases rule: render_stage_cases)
  case (rendered e out)
  from rendered(3) have "loaded (e # es') = loaded es' \<and> invocations (e # es') = invocations es'"
    for es'
    by (cases e) (simp_all add: is_render_def trace_loaded_Cons)
  with rendered(4) show ?thesis by (simp add: trace_loaded trace_loaded_Cons)
qed (simp_all add: trace_loaded trace_loaded_Cons)

section \<open>The claims\<close>

text \<open>
  C1, as the code has it. A run creates at most one tree. When it has created one, it
  frees it, once, exactly on the paths that end with status 0 (the tree was rendered, or
  rendering was skipped). On the paths that end in the filter loop, with status 3 or 5,
  \<^verbatim>\<open>main\<close> returns at once and the tree is never freed.
\<close>

theorem tree_freed_only_on_exit_0:
  assumes "main w garbage argv = (tr, oc)"
  shows "trees_created tr \<le> 1 \<and>
     trees_destroyed tr = (if trees_created tr = 1 \<and> oc = Exit 0 then 1 else 0)"
  using assms
proof (cases rule: main_cases)
  case stopped
  from filter_stage_trace [OF stopped] show ?thesis by auto
next
  case (finished e1 s d skip e2)
  from filter_stage_trace [OF finished(1)] render_stage_trace [OF finished(2)] finished(3)
  show ?thesis by (auto simp: trace_append)
qed

theorem tree_freed_only_on_exit_0_witness:
  "main example_world 0 [''cmark'', ''a.md'', ''--lua'', ''tag.lua'']
   = (fst (main example_world 0 [''cmark'', ''a.md'', ''--lua'', ''tag.lua'']), Exit 0)
   \<and> trees_created (fst (main example_world 0 [''cmark'', ''a.md'', ''--lua'', ''tag.lua''])) = 1
   \<and> trees_destroyed (fst (main example_world 0 [''cmark'', ''a.md'', ''--lua'', ''tag.lua''])) = 1"
proof -
  have run: "main example_world 0 [''cmark'', ''a.md'', ''--lua'', ''tag.lua'']
     = (fst (main example_world 0 [''cmark'', ''a.md'', ''--lua'', ''tag.lua'']), Exit 0)"
    by code_simp
  have made:
    "trees_created (fst (main example_world 0 [''cmark'', ''a.md'', ''--lua'', ''tag.lua''])) = 1"
    by code_simp
  from tree_freed_only_on_exit_0 [OF run] made
  have "trees_destroyed (fst (main example_world 0 [''cmark'', ''a.md'', ''--lua'', ''tag.lua'']))
      = 1"
    by simp
  with run made show ?thesis by (intro conjI)
qed

text \<open>
  C1 as it is stated fails: a filter that does not load ends a run that has created its
  tree, and no tree is freed.
\<close>

theorem tree_leaked_on_load_failure:
  "trees_created (fst (main example_world 0 [''cmark'', ''--lua'', ''syntax.lua''])) = 1
   \<and> trees_destroyed (fst (main example_world 0 [''cmark'', ''--lua'', ''syntax.lua''])) = 0
   \<and> snd (main example_world 0 [''cmark'', ''--lua'', ''syntax.lua'']) = Exit 3"
  by code_simp

text \<open>
  C2, as the code has it. The number of open Lua states is 0 or 1 at every point of a
  run; each \<^verbatim>\<open>luaL_loadfile\<close> has a state of its own (as many states are opened as
  files are loaded); a filter that ran to its end has its state closed before the next
  one is opened. When the run ends in the filter loop with status 3 or 5, the state of
  the failing filter is still open; on every other path none is.
\<close>

theorem lua_state_closed_unless_filter_fails:
  assumes "main w garbage argv = (tr, oc)"
  shows "(\<forall>c \<in> set (live_counts 0 tr). c = 0 \<or> c = 1) \<and>
     states_opened tr = loads tr \<and>
     live tr = (if oc = Exit 3 \<or> oc = Exit 5 then 1 else 0)"
  using assms
proof (cases rule: main_cases)
  case stopped
  then show ?thesis
  proof (cases rule: filter_stage_cases)
    case (early oc')
    from parse_stage_trace [OF early(1)] early(2) show ?thesis by auto
  next
    case (failed e1 s d e3 oc')
    from parse_stage_trace [OF failed(1)] run_filters_live [OF failed(2)] failed(3,4)
    show ?thesis by (auto simp: trace_append live_counts_append)
  qed simp
next
  case (finished e1 s d skip e2)
  from filter_stage_trace [OF finished(1)]
    render_stage_trace [OF finished(2), of "0 + live e1"] finished(3)
  show ?thesis by (auto simp: trace_append live_counts_append)
qed

theorem lua_state_closed_unless_filter_fails_witness:
  "main example_world 0 [''cmark'', ''--lua'', ''tag.lua'', ''--lua'', ''zero.lua'']
   = (fst (main example_world 0 [''cmark'', ''--lua'', ''tag.lua'', ''--lua'', ''zero.lua'']),
      Exit 0)
   \<and> states_opened
       (fst (main example_world 0 [''cmark'', ''--lua'', ''tag.lua'', ''--lua'', ''zero.lua'']))
     = 2
   \<and> loads (fst (main example_world 0 [''cmark'', ''--lua'', ''tag.lua'', ''--lua'', ''zero.lua'']))
     = 2
   \<and> 1 \<in> set (live_counts 0
         (fst (main example_world 0 [''cmark'', ''--lua'', ''tag.lua'', ''--lua'', ''zero.lua''])))
   \<and> live (fst (main example_world 0 [''cmark'', ''--lua'', ''tag.lua'', ''--lua'', ''zero.lua'']))
     = 0"
proof -
  have run: "main example_world 0 [''cmark'', ''--lua'', ''tag.lua'', ''--lua'', ''zero.lua'']
     = (fst (main example_world 0 [''cmark'', ''--lua'', ''tag.lua'', ''--lua'', ''zero.lua'']),
        Exit 0)"
    by code_simp
  have opened: "states_opened
       (fst (main example_world 0 [''cmark'', ''--lua'', ''tag.lua'', ''--lua'', ''zero.lua'']))
     = 2"
    by code_simp
  have one: "1 \<in> set (live_counts 0
         (fst (main example_world 0 [''cmark'', ''--lua'', ''tag.lua'', ''--lua'', ''zero.lua''])))"
    by code_simp
  note fact = lua_state_closed_unless_filter_fails [OF run]
  from fact opened have loaded:
    "loads (fst (main example_world 0 [''cmark'', ''--lua'', ''tag.lua'', ''--lua'', ''zero.lua'']))
     = 2"
    by simp
  from fact have closed:
    "live (fst (main example_world 0 [''cmark'', ''--lua'', ''tag.lua'', ''--lua'', ''zero.lua'']))
     = 0"
    by simp
  show ?thesis by (intro conjI) (rule run opened loaded one closed)+
qed

text \<open>
  C2 as it is stated fails: when the invocation of a filter raises, the run ends with
  the state of that filter opened and never closed.
\<close>

theorem lua_state_left_open_when_filter_raises:
  "states_opened (fst (main example_world 0 [''cmark'', ''--lua'', ''raise.lua''])) = 1
   \<and> live (fst (main example_world 0 [''cmark'', ''--lua'', ''raise.lua''])) = 1
   \<and> Lua_close \<notin> set (fst (main example_world 0 [''cmark'', ''--lua'', ''raise.lua'']))
   \<and> snd (main example_world 0 [''cmark'', ''--lua'', ''raise.lua'']) = Exit 5"
  by code_simp

text \<open>
  C3. Whatever the filters and the values they return: when the filter loop has run to
  its end, \<^verbatim>\<open>skip_rendering\<close> is set exactly when the most recent numeric value returned
  by a filter is \<open>-1\<close>. One step of it: a numeric \<open>-1\<close> sets the flag, any other
  number clears it, a value that is not numeric leaves it as it was. Every filter of the
  list has returned one value by then.
\<close>

theorem render_control_is_last_numeric_return:
  assumes "filter_stage w garbage argv = (tr, Inr (s, d, skip_rendering))"
  shows "(skip_rendering \<longleftrightarrow> last_numeric (returns tr) = Some (- 1)) \<and>
     length (returns tr) = nat (numluafps s) \<and>
     update_skip b (Numeric (- 1)) \<and>
     (x \<noteq> - 1 \<longrightarrow> \<not> update_skip b (Numeric x)) \<and>
     update_skip b NonNumeric = b"
  using assms
proof (cases rule: filter_stage_cases)
  case (filtered e1 s' d0 e3 d' skip)
  from filtered(4) have same: "s' = s" "d' = d" "skip = skip_rendering" by simp_all
  from parse_stage_trace [OF filtered(1)] have "returns e1 = []" by simp
  with run_filters_skip [OF filtered(2) [unfolded same]] filtered(3)
  show ?thesis
    by (auto simp: trace_append update_skip_def lua_isnumber_def lua_tonumber_def
        split: option.splits)
qed simp_all

theorem render_control_is_last_numeric_return_witness:
  "filter_stage example_world 0
     [''cmark'', ''--lua'', ''skip.lua'', ''--lua'', ''zero.lua'', ''--lua'', ''skip.lua'',
      ''--lua'', ''tag.lua'']
   = (fst (filter_stage example_world 0
        [''cmark'', ''--lua'', ''skip.lua'', ''--lua'', ''zero.lua'', ''--lua'', ''skip.lua'',
         ''--lua'', ''tag.lua'']),
      Inr (\<lparr>numfps = 0, numluafps = 4, files = replicate 9 None,
             luafiles = [Some 2, Some 4, Some 6, Some 8, None, None, None, None, None],
             width = 0, writer = FORMAT_HTML, options = 0, format = ''html''\<rparr>,
           ''from stdin\<newline>[html]'', True))
   \<and> returns (fst (filter_stage example_world 0
        [''cmark'', ''--lua'', ''skip.lua'', ''--lua'', ''zero.lua'', ''--lua'', ''skip.lua'',
         ''--lua'', ''tag.lua'']))
     = [Numeric (- 1), Numeric 0, Numeric (- 1), NonNumeric]
   \<and> (5 \<noteq> (- 1 :: real) \<and> \<not> update_skip True (Numeric 5))"
proof -
  have run: "filter_stage example_world 0
     [''cmark'', ''--lua'', ''skip.lua'', ''--lua'', ''zero.lua'', ''--lua'', ''skip.lua'',
      ''--lua'', ''tag.lua'']
   = (fst (filter_stage example_world 0
        [''cmark'', ''--lua'', ''skip.lua'', ''--lua'', ''zero.lua'', ''--lua'', ''skip.lua'',
         ''--lua'', ''tag.lua'']),
      Inr (\<lparr>numfps = 0, numluafps = 4, files = replicate 9 None,
             luafiles = [Some 2, Some 4, Some 6, Some 8, None, None, None, None, None],
             width = 0, writer = FORMAT_HTML, options = 0, format = ''html''\<rparr>,
           ''from stdin\<newline>[html]'', True))"
    by code_simp
  have vals: "returns (fst (filter_stage example_world 0
        [''cmark'', ''--lua'', ''skip.lua'', ''--lua'', ''zero.lua'', ''--lua'', ''skip.lua'',
         ''--lua'', ''tag.lua'']))
     = [Numeric (- 1), Numeric 0, Numeric (- 1), NonNumeric]"
    by code_simp
  from render_control_is_last_numeric_return [OF run, of True 5] run vals
  show ?thesis by simp
qed

text \<open>
  C4. When the filter loop has run to its end and the most recent numeric value a filter
  returned is \<open>-1\<close>, \<^verbatim>\<open>main\<close> calls no renderer and writes nothing to standard output;
  it frees the tree, once, and returns 0.
\<close>

theorem skip_bypasses_rendering:
  assumes "filter_stage w garbage argv = (tr, Inr (s, d, skip_rendering))"
    and "last_numeric (returns tr) = Some (- 1)"
  shows "main w garbage argv = (tr @ [Cmark_node_free d, Free_files, Free_luafiles], Exit 0) \<and>
     renders (fst (main w garbage argv)) = 0 \<and>
     stdout_text (fst (main w garbage argv)) = [] \<and>
     trees_destroyed (fst (main w garbage argv)) = 1"
proof -
  from assms(1) have "skip_rendering \<longleftrightarrow> last_numeric (returns tr) = Some (- 1)"
    by (cases rule: filter_stage_cases)
       (auto simp: trace_append dest!: run_filters_skip parse_stage_trace
          split: option.splits)
  with assms(2) have skip: skip_rendering by simp
  with assms(1) have run:
    "main w garbage argv = (tr @ [Cmark_node_free d, Free_files, Free_luafiles], Exit 0)"
    by (simp add: main_def render_stage_def)
  from filter_stage_trace [OF assms(1)] have
    "renders tr = 0" "stdout_text tr = []" "trees_destroyed tr = 0"
    by simp_all
  with run show ?thesis
    by (simp add: trace_append trace_Cons trace_Nil is_render_def)
qed

theorem skip_bypasses_rendering_witness:
  "filter_stage example_world 0 [''cmark'', ''a.md'', ''--lua'', ''skip.lua'', ''--lua'', ''tag.lua'']
   = (fst (filter_stage example_world 0
        [''cmark'', ''a.md'', ''--lua'', ''skip.lua'', ''--lua'', ''tag.lua'']),
      Inr (\<lparr>numfps = 1, numluafps = 2, files = [Some 1, None, None, None, None, None],
             luafiles = [Some 3, Some 5, None, None, None, None],
             width = 0, writer = FORMAT_HTML, options = 0, format = ''html''\<rparr>,
           ''# Hi\<newline>[html]'', True))
   \<and> last_numeric (returns (fst (filter_stage example_world 0
        [''cmark'', ''a.md'', ''--lua'', ''skip.lua'', ''--lua'', ''tag.lua'']))) = Some (- 1)
   \<and> snd (main example_world 0
        [''cmark'', ''a.md'', ''--lua'', ''skip.lua'', ''--lua'', ''tag.lua'']) = Exit 0
   \<and> stdout_text (fst (main example_world 0
        [''cmark'', ''a.md'', ''--lua'', ''skip.lua'', ''--lua'', ''tag.lua''])) = []"
proof -
  have run: "filter_stage example_world 0
      [''cmark'', ''a.md'', ''--lua'', ''skip.lua'', ''--lua'', ''tag.lua'']
   = (fst (filter_stage example_world 0
        [''cmark'', ''a.md'', ''--lua'', ''skip.lua'', ''--lua'', ''tag.lua'']),
      Inr (\<lparr>numfps = 1, numluafps = 2, files = [Some 1, None, None, None, None, None],
             luafiles = [Some 3, Some 5, None, None, None, None],
             width = 0, writer = FORMAT_HTML, options = 0, format = ''html''\<rparr>,
           ''# Hi\<newline>[html]'', True))"
    by code_simp
  have recent: "last_numeric (returns (fst (filter_stage example_world 0
        [''cmark'', ''a.md'', ''--lua'', ''skip.lua'', ''--lua'', ''tag.lua'']))) = Some (- 1)"
    by code_simp
  note fact = skip_bypasses_rendering [OF run recent]
  from fact have status: "snd (main example_world 0
      [''cmark'', ''a.md'', ''--lua'', ''skip.lua'', ''--lua'', ''tag.lua'']) = Exit 0"
    by simp
  from fact have silent: "stdout_text (fst (main example_world 0
      [''cmark'', ''a.md'', ''--lua'', ''skip.lua'', ''--lua'', ''tag.lua''])) = []"
    by (elim conjE)
  show ?thesis
    by (intro conjI) (rule run recent status silent)+
qed



text \<open>
  C6. When the argument loop has ended with locals \<open>s\<close>, the text \<open>format s\<close> is fixed,
  before any filter runs: it is the operand of the last \<^verbatim>\<open>-t\<close> or \<^verbatim>\<open>--to\<close> of the
  command line, \<open>html\<close> when there is none, and it is the name of the writer. The files
  that the run loads as filters are the operands of \<^verbatim>\<open>--lua\<close>, in the order of the
  command line, up to the first that fails, and all of them when the run ends with
  status 0; then each has been invoked once and has returned. Every call of a filter
  function in the run has two arguments: the tree as it is at that point (as the parser
  built it and the filters before changed it) and that text.
\<close>

theorem filters_called_with_tree_and_format:
  assumes "main w garbage argv = (tr, oc)"
    and "parse_args w argv 1 (initial_locals w garbage argv) = (es, Inr s)"
  shows "invoked_with w (format s) None [] [] tr \<and>
     format s = resolved_format ''html'' (tl argv) \<and>
     writer s \<noteq> FORMAT_NONE \<and> format s = format_name (writer s) \<and>
     loaded tr = take (length (loaded tr)) (lua_operands (tl argv)) \<and>
     (oc = Exit 0 \<longrightarrow>
        loaded tr = lua_operands (tl argv) \<and>
        invocations tr = length (lua_operands (tl argv)) \<and>
        length (returns tr) = length (lua_operands (tl argv)))"
proof -
  from parse_args_loop_at [OF assms(2) loop_start [of w garbage argv]]
  obtain n where at: "loop_at w garbage argv n s" by blast
  note fmt = loop_at_writer [OF at]
  from parse_args_resolves_command_line [OF assms(2)]
  obtain m where rec: "filters_recorded argv m s"
    and names: "filter_names argv s 0 = lua_operands (tl argv)"
    and resolved: "format s = resolved_format ''html'' (tl argv)"
    by blast
  from rec have count: "length (filter_names argv s 0) = nat (numluafps s)"
    by (simp add: filter_names_def)
  from assms have "invoked_with w (format s) None [] [] tr \<and>
     loaded tr = take (length (loaded tr)) (lua_operands (tl argv)) \<and>
     (oc = Exit 0 \<longrightarrow>
        loaded tr = lua_operands (tl argv) \<and>
        invocations tr = length (lua_operands (tl argv)) \<and>
        length (returns tr) = length (lua_operands (tl argv)))"
  proof (cases rule: main_parsed_cases)
    case (input e2)
    from read_input_events [OF input(1)] have plain: "list_all plain e2" and "oc \<noteq> Exit 0"
      by auto
    with input(2) plain_invoked_with [of e2 w "format s" None "[]" "[]" "[]"]
      plain_loaded [OF plain]
    show ?thesis by (simp add: trace_loaded trace_loaded_Cons)
  next
    case (failed e2 d e3)
    from read_input_events [OF failed(1)] have plain: "list_all plain e2" by simp
    from run_filters_failures [OF failed(3)] have "oc \<noteq> Exit 0" by auto
    moreover have "invoked_with w (format s) (Some d) [] [] (e3 @ [])"
      by (rule run_filters_invoked [OF failed(3)]) simp
    moreover from run_filters_loaded [OF rec failed(3)] names
    have "loaded e3 = take (length (loaded e3)) (lua_operands (tl argv))" by simp
    ultimately show ?thesis
      using failed(4) plain_invoked_with [OF plain] plain_loaded [OF plain]
      by (simp add: trace_loaded trace_loaded_Cons)
  next
    case (finished e2 d e3 d' skip e4)
    from read_input_events [OF finished(1)] have plain: "list_all plain e2" by simp
    have "invoked_with w (format s) (Some d) [] [] (e3 @ e4)"
      by (rule run_filters_invoked [OF finished(3)])
         (simp add: render_stage_trace [OF finished(4)])
    moreover from run_filters_loaded [OF rec finished(3)] names
    have "loaded e3 = lua_operands (tl argv)"
      and "invocations e3 = length (lua_operands (tl argv))"
      by simp_all
    moreover from run_filters_skip [OF finished(3)] render_stage_trace [OF finished(4)]
      plain_returns [OF plain] count names
    have "length (returns tr) = length (lua_operands (tl argv))"
      by (simp add: finished(5) trace_Cons trace_append trace_Nil)
    ultimately show ?thesis
      using finished(5) plain_invoked_with [OF plain] plain_loaded [OF plain]
        render_stage_loaded [OF finished(4)]
      by (simp add: trace_loaded trace_loaded_Cons)
  qed
  with fmt resolved show ?thesis by simp
qed

theorem filters_called_with_tree_and_format_witness:
  "main example_world 0
     [''cmark'', ''-t'', ''xml'', ''--to'', ''latex'', ''--lua'', ''tag.lua'', ''a.md'',
      ''--lua'', ''zero.lua'']
   = (fst (main example_world 0
        [''cmark'', ''-t'', ''xml'', ''--to'', ''latex'', ''--lua'', ''tag.lua'', ''a.md'',
         ''--lua'', ''zero.lua'']),
      Exit 0)
   \<and> fst (main example_world 0
        [''cmark'', ''-t'', ''xml'', ''--to'', ''latex'', ''--lua'', ''tag.lua'', ''a.md'',
         ''--lua'', ''zero.lua''])
     = [Cmark_parser_new 0, Fopen ''a.md'', Cmark_parser_feed ''# Hi\<newline>'', Fclose ''a.md'',
        Cmark_parser_finish ''# Hi\<newline>'', Cmark_parser_free,
        LuaL_newstate, LuaL_openlibs, LuaL_requiref ''utf8'', LuaL_requiref ''cmark'',
        LuaL_loadfile ''tag.lua'' 0, Lua_pcall 0 1 0,
        Push_cmark_node ''# Hi\<newline>'', Lua_pushstring ''latex'', Lua_pcall 2 1 0,
        Lua_isnumber NonNumeric, Lua_close,
        LuaL_newstate, LuaL_openlibs, LuaL_requiref ''utf8'', LuaL_requiref ''cmark'',
        LuaL_loadfile ''zero.lua'' 0, Lua_pcall 0 1 0,
        Push_cmark_node ''# Hi\<newline>[latex]'', Lua_pushstring ''latex'', Lua_pcall 2 1 0,
        Lua_isnumber (Numeric 0), Lua_close,
        Cmark_render_latex ''# Hi\<newline>[latex]'' 0 0,
        Stdout ''%tex # Hi\<newline>[latex]'', Free_result,
        Cmark_node_free ''# Hi\<newline>[latex]'', Free_files, Free_luafiles]
   \<and> resolved_format ''html''
        [''-t'', ''xml'', ''--to'', ''latex'', ''--lua'', ''tag.lua'', ''a.md'',
         ''--lua'', ''zero.lua''] = ''latex''
   \<and> lua_operands
        [''-t'', ''xml'', ''--to'', ''latex'', ''--lua'', ''tag.lua'', ''a.md'',
         ''--lua'', ''zero.lua''] = [''tag.lua'', ''zero.lua'']
   \<and> invoked_with example_world ''latex'' None [] []
       (fst (main example_world 0
          [''cmark'', ''-t'', ''xml'', ''--to'', ''latex'', ''--lua'', ''tag.lua'', ''a.md'',
           ''--lua'', ''zero.lua'']))
   \<and> loaded (fst (main example_world 0
          [''cmark'', ''-t'', ''xml'', ''--to'', ''latex'', ''--lua'', ''tag.lua'', ''a.md'',
           ''--lua'', ''zero.lua''])) = [''tag.lua'', ''zero.lua'']
   \<and> invocations (fst (main example_world 0
          [''cmark'', ''-t'', ''xml'', ''--to'', ''latex'', ''--lua'', ''tag.lua'', ''a.md'',
           ''--lua'', ''zero.lua''])) = 2"
proof -
  have run: "main example_world 0
     [''cmark'', ''-t'', ''xml'', ''--to'', ''latex'', ''--lua'', ''tag.lua'', ''a.md'',
      ''--lua'', ''zero.lua'']
   = (fst (main example_world 0
        [''cmark'', ''-t'', ''xml'', ''--to'', ''latex'', ''--lua'', ''tag.lua'', ''a.md'',
         ''--lua'', ''zero.lua'']),
      Exit 0)"
    by code_simp
  have trace: "fst (main example_world 0
        [''cmark'', ''-t'', ''xml'', ''--to'', ''latex'', ''--lua'', ''tag.lua'', ''a.md'',
         ''--lua'', ''zero.lua''])
     = [Cmark_parser_new 0, Fopen ''a.md'', Cmark_parser_feed ''# Hi\<newline>'', Fclose ''a.md'',
        Cmark_parser_finish ''# Hi\<newline>'', Cmark_parser_free,
        LuaL_newstate, LuaL_openlibs, LuaL_requiref ''utf8'', LuaL_requiref ''cmark'',
        LuaL_loadfile ''tag.lua'' 0, Lua_pcall 0 1 0,
        Push_cmark_node ''# Hi\<newline>'', Lua_pushstring ''latex'', Lua_pcall 2 1 0,
        Lua_isnumber NonNumeric, Lua_close,
        LuaL_newstate, LuaL_openlibs, LuaL_requiref ''utf8'', LuaL_requiref ''cmark'',
        LuaL_loadfile ''zero.lua'' 0, Lua_pcall 0 1 0,
        Push_cmark_node ''# Hi\<newline>[latex]'', Lua_pushstring ''latex'', Lua_pcall 2 1 0,
        Lua_isnumber (Numeric 0), Lua_close,
        Cmark_render_latex ''# Hi\<newline>[latex]'' 0 0,
        Stdout ''%tex # Hi\<newline>[latex]'', Free_result,
        Cmark_node_free ''# Hi\<newline>[latex]'', Free_files, Free_luafiles]"
    by code_simp
  have args: "parse_args example_world
      [''cmark'', ''-t'', ''xml'', ''--to'', ''latex'', ''--lua'', ''tag.lua'', ''a.md'',
       ''--lua'', ''zero.lua''] 1
      (initial_locals example_world 0
        [''cmark'', ''-t'', ''xml'', ''--to'', ''latex'', ''--lua'', ''tag.lua'', ''a.md'',
         ''--lua'', ''zero.lua''])
    = ([], Inr \<lparr>numfps = 1, numluafps = 2,
                 files = [Some 7, None, None, None, None, None, None, None, None, None],
                 luafiles = [Some 6, Some 9, None, None, None, None, None, None, None, None],
                 width = 0, writer = FORMAT_LATEX, options = 0, format = ''latex''\<rparr>)"
    by code_simp
  have fmt: "resolved_format ''html''
        [''-t'', ''xml'', ''--to'', ''latex'', ''--lua'', ''tag.lua'', ''a.md'',
         ''--lua'', ''zero.lua''] = ''latex''"
    by code_simp
  have ops: "lua_operands
        [''-t'', ''xml'', ''--to'', ''latex'', ''--lua'', ''tag.lua'', ''a.md'',
         ''--lua'', ''zero.lua''] = [''tag.lua'', ''zero.lua'']"
    by code_simp
  note fact = filters_called_with_tree_and_format [OF run args]
  from fact [THEN conjunct1] have monitor: "invoked_with example_world ''latex'' None [] []
       (fst (main example_world 0
          [''cmark'', ''-t'', ''xml'', ''--to'', ''latex'', ''--lua'', ''tag.lua'', ''a.md'',
           ''--lua'', ''zero.lua'']))"
    by simp
  from fact [THEN conjunct2, THEN conjunct2, THEN conjunct2, THEN conjunct2, THEN conjunct2]
  have all: "loaded (fst (main example_world 0
          [''cmark'', ''-t'', ''xml'', ''--to'', ''latex'', ''--lua'', ''tag.lua'', ''a.md'',
           ''--lua'', ''zero.lua''])) = [''tag.lua'', ''zero.lua'']"
    and calls: "invocations (fst (main example_world 0
          [''cmark'', ''-t'', ''xml'', ''--to'', ''latex'', ''--lua'', ''tag.lua'', ''a.md'',
           ''--lua'', ''zero.lua''])) = 2"
    by simp_all
  show ?thesis by (intro conjI) (rule run trace fmt ops monitor all calls)+
qed

text \<open>
  C8, as the code has it. When the filters have run and rendering is not skipped, the
  width of the run is the number \<^verbatim>\<open>strtol\<close> reads from the operand of the last
  \<^verbatim>\<open>--width\<close> of the command line, 0 when there is none, and the writer is the one the
  last \<^verbatim>\<open>-t\<close> or \<^verbatim>\<open>--to\<close> names. The rest of the run is one renderer call, the text it
  returns written as it is, and the teardown, with status 0. Three renderers are called
  with that width: man, commonmark and latex. The html and xml renderers are called
  with the tree and the options only: for these two formats the calls made and the
  text written are the same for every width.
\<close>

theorem width_passed_to_man_commonmark_latex:
  assumes "filter_stage w garbage argv = (tr, Inr (s, d, False))"
  shows "width s = resolved_width w 0 (tl argv) \<and>
     format_name (writer s) = resolved_format ''html'' (tl argv) \<and>
     (writer s = FORMAT_HTML \<longrightarrow>
        main w garbage argv =
          (tr @ [Cmark_render_html d (options s), Stdout (cmark_render_html w d (options s)),
                 Free_result, Cmark_node_free d, Free_files, Free_luafiles], Exit 0)) \<and>
     (writer s = FORMAT_XML \<longrightarrow>
        main w garbage argv =
          (tr @ [Cmark_render_xml d (options s), Stdout (cmark_render_xml w d (options s)),
                 Free_result, Cmark_node_free d, Free_files, Free_luafiles], Exit 0)) \<and>
     (writer s = FORMAT_MAN \<longrightarrow>
        main w garbage argv =
          (tr @ [Cmark_render_man d (options s) (resolved_width w 0 (tl argv)),
                 Stdout (cmark_render_man w d (options s) (resolved_width w 0 (tl argv))),
                 Free_result, Cmark_node_free d, Free_files, Free_luafiles], Exit 0)) \<and>
     (writer s = FORMAT_COMMONMARK \<longrightarrow>
        main w garbage argv =
          (tr @ [Cmark_render_commonmark d (options s) (resolved_width w 0 (tl argv)),
                 Stdout (cmark_render_commonmark w d (options s)
                           (resolved_width w 0 (tl argv))),
                 Free_result, Cmark_node_free d, Free_files, Free_luafiles], Exit 0)) \<and>
     (writer s = FORMAT_LATEX \<longrightarrow>
        main w garbage argv =
          (tr @ [Cmark_render_latex d (options s) (resolved_width w 0 (tl argv)),
                 Stdout (cmark_render_latex w d (options s) (resolved_width w 0 (tl argv))),
                 Free_result, Cmark_node_free d, Free_files, Free_luafiles], Exit 0)) \<and>
     (writer s = FORMAT_HTML \<or> writer s = FORMAT_XML \<longrightarrow>
        render_stage w (s\<lparr>width := wd\<rparr>) d False = render_stage w s d False) \<and>
     (wr = FORMAT_HTML \<or> wr = FORMAT_XML \<longrightarrow>
        print_document w d' wr opts wd = print_document w d' wr opts 0)"
proof -
  from assms obtain e1 d0 where "parse_stage w garbage argv = (e1, Inr (s, d0))"
    by (cases rule: filter_stage_cases) auto
  then have args: "parse_args w argv 1 (initial_locals w garbage argv) = ([], Inr s)"
    by (cases rule: parse_stage_cases) auto
  from parse_args_loop_at [OF args loop_start [of w garbage argv]]
  obtain n where at: "loop_at w garbage argv n s" by blast
  from loop_at_writer [OF at] have fmt: "format s = format_name (writer s)" by simp
  from parse_args_resolves_command_line [OF args]
  have wd: "width s = resolved_width w 0 (tl argv)"
    and resolved: "format s = resolved_format ''html'' (tl argv)"
    by blast+
  have run: "main w garbage argv =
    (tr @ fst (render_stage w s d False), snd (render_stage w s d False))"
    using assms by (simp add: main_def split: prod.splits)
  have html: "writer s = FORMAT_HTML \<Longrightarrow> render_stage w s d False =
      ([Cmark_render_html d (options s), Stdout (cmark_render_html w d (options s)),
        Free_result, Cmark_node_free d, Free_files, Free_luafiles], Exit 0)"
    by (simp add: render_stage_def print_document_def)
  have xml: "writer s = FORMAT_XML \<Longrightarrow> render_stage w s d False =
      ([Cmark_render_xml d (options s), Stdout (cmark_render_xml w d (options s)),
        Free_result, Cmark_node_free d, Free_files, Free_luafiles], Exit 0)"
    by (simp add: render_stage_def print_document_def)
  have man: "writer s = FORMAT_MAN \<Longrightarrow> render_stage w s d False =
      ([Cmark_render_man d (options s) (width s),
        Stdout (cmark_render_man w d (options s) (width s)),
        Free_result, Cmark_node_free d, Free_files, Free_luafiles], Exit 0)"
    by (simp add: render_stage_def print_document_def)
  have commonmark: "writer s = FORMAT_COMMONMARK \<Longrightarrow> render_stage w s d False =
      ([Cmark_render_commonmark d (options s) (width s),
        Stdout (cmark_render_commonmark w d (options s) (width s)),
        Free_result, Cmark_node_free d, Free_files, Free_luafiles], Exit 0)"
    by (simp add: render_stage_def print_document_def)
  have latex: "writer s = FORMAT_LATEX \<Longrightarrow> render_stage w s d False =
      ([Cmark_render_latex d (options s) (width s),
        Stdout (cmark_render_latex w d (options s) (width s)),
        Free_result, Cmark_node_free d, Free_files, Free_luafiles], Exit 0)"
    by (simp add: render_stage_def print_document_def)
  have same: "writer s = FORMAT_HTML \<or> writer s = FORMAT_XML \<Longrightarrow>
      render_stage w (s\<lparr>width := wd\<rparr>) d False = render_stage w s d False"
    by (auto simp: render_stage_def print_document_def)
  have doc: "wr = FORMAT_HTML \<or> wr = FORMAT_XML \<Longrightarrow>
      print_document w d' wr opts wd = print_document w d' wr opts 0"
    by (auto simp: print_document_def)
  show ?thesis
  proof (intro conjI impI)
    show "width s = resolved_width w 0 (tl argv)" by (rule wd)
    show "format_name (writer s) = resolved_format ''html'' (tl argv)"
      using fmt resolved by simp
  qed (simp_all only: run html xml man commonmark latex same doc wd [symmetric] fst_conv snd_conv)
qed

theorem width_passed_to_man_commonmark_latex_witness:
  "filter_stage example_world 0
      [''cmark'', ''--width'', ''9'', ''-t'', ''commonmark'', ''--width'', ''4'']
   = ([Cmark_parser_new 0, Cmark_parser_feed ''from stdin\<newline>'',
       Cmark_parser_finish ''from stdin\<newline>'', Cmark_parser_free],
      Inr (\<lparr>numfps = 0, numluafps = 0, files = [None, None, None, None, None, None, None],
            luafiles = [None, None, None, None, None, None, None],
            width = 4, writer = FORMAT_COMMONMARK, options = 0, format = ''commonmark''\<rparr>,
           ''from stdin\<newline>'', False))
   \<and> resolved_width example_world 0
       (tl [''cmark'', ''--width'', ''9'', ''-t'', ''commonmark'', ''--width'', ''4'']) = 4
   \<and> resolved_format ''html''
       (tl [''cmark'', ''--width'', ''9'', ''-t'', ''commonmark'', ''--width'', ''4''])
     = ''commonmark''
   \<and> main example_world 0
       [''cmark'', ''--width'', ''9'', ''-t'', ''commonmark'', ''--width'', ''4'']
     = ([Cmark_parser_new 0, Cmark_parser_feed ''from stdin\<newline>'',
         Cmark_parser_finish ''from stdin\<newline>'', Cmark_parser_free,
         Cmark_render_commonmark ''from stdin\<newline>'' 0 4, Stdout ''from'', Free_result,
         Cmark_node_free ''from stdin\<newline>'', Free_files, Free_luafiles], Exit 0)"
proof -
  have stage: "filter_stage example_world 0
      [''cmark'', ''--width'', ''9'', ''-t'', ''commonmark'', ''--width'', ''4'']
   = ([Cmark_parser_new 0, Cmark_parser_feed ''from stdin\<newline>'',
       Cmark_parser_finish ''from stdin\<newline>'', Cmark_parser_free],
      Inr (\<lparr>numfps = 0, numluafps = 0, files = [None, None, None, None, None, None, None],
            luafiles = [None, None, None, None, None, None, None],
            width = 4, writer = FORMAT_COMMONMARK, options = 0, format = ''commonmark''\<rparr>,
           ''from stdin\<newline>'', False))"
    by code_simp
  have parsed: "width \<lparr>numfps = 0, numluafps = 0,
            files = [None, None, None, None, None, None, None],
            luafiles = [None, None, None, None, None, None, None],
            width = 4, writer = FORMAT_COMMONMARK, options = 0, format = ''commonmark''\<rparr> = 4"
    and chosen: "writer \<lparr>numfps = 0, numluafps = 0,
            files = [None, None, None, None, None, None, None],
            luafiles = [None, None, None, None, None, None, None],
            width = 4, writer = FORMAT_COMMONMARK, options = 0, format = ''commonmark''\<rparr>
          = FORMAT_COMMONMARK"
    by simp_all
  have out: "cmark_render_commonmark example_world ''from stdin\<newline>'' 0 4 = ''from''"
    by code_simp
  note fact = width_passed_to_man_commonmark_latex [OF stage]
  from fact [THEN conjunct1, symmetric] parsed
  have wd: "resolved_width example_world 0
       (tl [''cmark'', ''--width'', ''9'', ''-t'', ''commonmark'', ''--width'', ''4'']) = 4"
    by (rule trans)
  from fact [THEN conjunct2, THEN conjunct1, symmetric]
  have fmt: "resolved_format ''html''
       (tl [''cmark'', ''--width'', ''9'', ''-t'', ''commonmark'', ''--width'', ''4''])
     = ''commonmark''"
    by (simp add: chosen format_name_def del: resolved_format.simps)
  from fact [THEN conjunct2, THEN conjunct2, THEN conjunct2, THEN conjunct2, THEN conjunct2,
    THEN conjunct1, rule_format, OF chosen, unfolded wd]
  have run: "main example_world 0
       [''cmark'', ''--width'', ''9'', ''-t'', ''commonmark'', ''--width'', ''4'']
     = ([Cmark_parser_new 0, Cmark_parser_feed ''from stdin\<newline>'',
         Cmark_parser_finish ''from stdin\<newline>'', Cmark_parser_free,
         Cmark_render_commonmark ''from stdin\<newline>'' 0 4, Stdout ''from'', Free_result,
         Cmark_node_free ''from stdin\<newline>'', Free_files, Free_luafiles], Exit 0)"
    by (simp add: out)
  show ?thesis by (intro conjI) (rule stage wd fmt run)+
qed

text \<open>
  C8 as it is stated fails for man. With \<^verbatim>\<open>-t man --width 4\<close> the run calls the man
  renderer with width 4, and with \<^verbatim>\<open>--width 0\<close> with width 0: the width reaches the
  renderer as it does for commonmark and latex. The renderer itself belongs to libcmark;
  with one that wraps at the width it is given, the text written for width 4 is not the
  text written for width 0.
\<close>

theorem man_output_depends_on_width:
  "fst (main example_world 0 [''cmark'', ''-t'', ''man'', ''--width'', ''4''])
     = [Cmark_parser_new 0, Cmark_parser_feed ''from stdin\<newline>'',
        Cmark_parser_finish ''from stdin\<newline>'', Cmark_parser_free,
        Cmark_render_man ''from stdin\<newline>'' 0 4, Stdout ''.PP from'', Free_result,
        Cmark_node_free ''from stdin\<newline>'', Free_files, Free_luafiles]
   \<and> fst (main example_world 0 [''cmark'', ''-t'', ''man'', ''--width'', ''0''])
     = [Cmark_parser_new 0, Cmark_parser_feed ''from stdin\<newline>'',
        Cmark_parser_finish ''from stdin\<newline>'', Cmark_parser_free,
        Cmark_render_man ''from stdin\<newline>'' 0 0, Stdout ''.PP from stdin\<newline>'',
        Free_result, Cmark_node_free ''from stdin\<newline>'', Free_files, Free_luafiles]
   \<and> stdout_text (fst (main example_world 0 [''cmark'', ''-t'', ''man'', ''--width'', ''4'']))
     = ''.PP from''
   \<and> stdout_text (fst (main example_world 0 [''cmark'', ''-t'', ''man'', ''--width'', ''0'']))
     = ''.PP from stdin\<newline>''"
  by code_simp

text \<open>
  C9, as the code has it. When the argument loop is at a \<^verbatim>\<open>--width\<close> that has a next
  argument, and \<^verbatim>\<open>strtol\<close> leaves a rest of that argument that is not empty, the run
  consists of one message on standard error and ends with status 1: no parser exists
  yet. When no argument is \<^verbatim>\<open>--width\<close> and the argument loop ends, the width is 0.
\<close>

theorem unparsed_width_is_fatal:
  "(loop_at w garbage argv i s \<longrightarrow> i + 1 < length argv \<longrightarrow> argv ! i = ''--width'' \<longrightarrow>
      snd (strtol w (argv ! (i + 1))) \<noteq> [] \<longrightarrow>
      (\<exists>m. m \<noteq> [] \<and> main w garbage argv = ([Stderr m], Exit 1))) \<and>
   (''--width'' \<notin> set argv \<longrightarrow>
      parse_args w argv 1 (initial_locals w garbage argv) = (es, Inr s') \<longrightarrow> width s' = 0)"
proof (intro conjI impI)
  assume at: "loop_at w garbage argv i s" and more: "i + 1 < length argv"
    and flag: "argv ! i = ''--width''" and rest: "snd (strtol w (argv ! (i + 1))) \<noteq> []"
  from arg_step_width_unparsed [OF flag more rest, of s]
  obtain m where m: "m \<noteq> []" "arg_step w argv i s = Stop [Stderr m] (Exit 1)" by blast
  from more m(2) have "parse_args w argv i s = ([Stderr m], Inl (Exit 1))"
    by (simp add: parse_args.simps [of w argv i s])
  with loop_at_parse_args [OF at]
  have "parse_args w argv 1 (initial_locals w garbage argv) = ([Stderr m], Inl (Exit 1))"
    by simp
  from main_stops_in_arguments [OF this] m(1)
  show "\<exists>m. m \<noteq> [] \<and> main w garbage argv = ([Stderr m], Exit 1)" by blast
next
  assume absent: "''--width'' \<notin> set argv"
    and ended: "parse_args w argv 1 (initial_locals w garbage argv) = (es, Inr s')"
  from parse_args_loop_at [OF ended loop_start [of w garbage argv]]
  obtain n where "loop_at w garbage argv n s'" by blast
  from loop_at_width [OF this] absent show "width s' = 0" by simp
qed

theorem unparsed_width_is_fatal_witness:
  "loop_at example_world 0 [''cmark'', ''--smart'', ''--width'', ''12x'', ''a.md''] 2
     ((initial_locals example_world 0
         [''cmark'', ''--smart'', ''--width'', ''12x'', ''a.md''])\<lparr>options := 1024\<rparr>)
   \<and> snd (strtol example_world ''12x'') = ''x''
   \<and> snd (main example_world 0 [''cmark'', ''--smart'', ''--width'', ''12x'', ''a.md''])
     = Exit 1
   \<and> stderr_text (fst (main example_world 0
         [''cmark'', ''--smart'', ''--width'', ''12x'', ''a.md'']))
     = ''failed parsing width '' @ [CHR 0x27] @ ''12x'' @ [CHR 0x27] @ '' at ''
       @ [CHR 0x27] @ ''x'' @ [CHR 0x27] @ ''\<newline>''
   \<and> ''--width'' \<notin> set [''cmark'', ''--smart'', ''a.md'']
   \<and> parse_args example_world [''cmark'', ''--smart'', ''a.md''] 1
       (initial_locals example_world 0 [''cmark'', ''--smart'', ''a.md''])
     = ([], Inr \<lparr>numfps = 1, numluafps = 0, files = [Some 2, None, None],
                  luafiles = [None, None, None], width = 0, writer = FORMAT_HTML,
                  options = 1024, format = ''html''\<rparr>)
   \<and> width \<lparr>numfps = 1, numluafps = 0, files = [Some 2, None, None],
              luafiles = [None, None, None], width = 0, writer = FORMAT_HTML,
              options = 1024, format = ''html''\<rparr> = 0"
proof -
  have step: "arg_step example_world [''cmark'', ''--smart'', ''--width'', ''12x'', ''a.md''] 1
      (initial_locals example_world 0 [''cmark'', ''--smart'', ''--width'', ''12x'', ''a.md''])
    = Next 1 ((initial_locals example_world 0
         [''cmark'', ''--smart'', ''--width'', ''12x'', ''a.md''])\<lparr>options := 1024\<rparr>)"
    by code_simp
  have "loop_at example_world 0 [''cmark'', ''--smart'', ''--width'', ''12x'', ''a.md'']
      (1 + 1)
      ((initial_locals example_world 0
         [''cmark'', ''--smart'', ''--width'', ''12x'', ''a.md''])\<lparr>options := 1024\<rparr>)"
    by (rule loop_next [OF loop_start _ step]) simp
  then have at: "loop_at example_world 0 [''cmark'', ''--smart'', ''--width'', ''12x'', ''a.md'']
      2
      ((initial_locals example_world 0
         [''cmark'', ''--smart'', ''--width'', ''12x'', ''a.md''])\<lparr>options := 1024\<rparr>)"
    by (simp add: numeral_2_eq_2)
  have rest: "snd (strtol example_world ''12x'') = ''x''"
    by code_simp
  have absent: "''--width'' \<notin> set [''cmark'', ''--smart'', ''a.md'']"
    by simp
  have ended: "parse_args example_world [''cmark'', ''--smart'', ''a.md''] 1
       (initial_locals example_world 0 [''cmark'', ''--smart'', ''a.md''])
     = ([], Inr \<lparr>numfps = 1, numluafps = 0, files = [Some 2, None, None],
                  luafiles = [None, None, None], width = 0, writer = FORMAT_HTML,
                  options = 1024, format = ''html''\<rparr>)"
    by code_simp
  from unparsed_width_is_fatal
    [of example_world 0 "[''cmark'', ''--smart'', ''--width'', ''12x'', ''a.md'']" 2
        "(initial_locals example_world 0
           [''cmark'', ''--smart'', ''--width'', ''12x'', ''a.md''])\<lparr>options := 1024\<rparr>"]
    at rest
  have status: "snd (main example_world 0
      [''cmark'', ''--smart'', ''--width'', ''12x'', ''a.md'']) = Exit 1"
    by auto
  have message: "stderr_text (fst (main example_world 0
         [''cmark'', ''--smart'', ''--width'', ''12x'', ''a.md'']))
     = ''failed parsing width '' @ [CHR 0x27] @ ''12x'' @ [CHR 0x27] @ '' at ''
       @ [CHR 0x27] @ ''x'' @ [CHR 0x27] @ ''\<newline>''"
    by code_simp
  from unparsed_width_is_fatal
    [where argv = "[''cmark'', ''--smart'', ''a.md'']" and w = example_world and garbage = 0]
    absent ended
  have zero: "width \<lparr>numfps = 1, numluafps = 0, files = [Some 2, None, None],
                  luafiles = [None, None, None], width = 0, writer = FORMAT_HTML,
                  options = 1024, format = ''html''\<rparr> = 0"
    by blast
  show ?thesis by (intro conjI) (rule at rest status message absent ended zero)+
qed

text \<open>
  C9 as it is stated fails: the arguments are read from left to right, and an argument
  that ends the process comes first. Here \<^verbatim>\<open>--version\<close> does: status 0, nothing on
  standard error, although \<^verbatim>\<open>--width abc\<close> follows.
\<close>

theorem version_wins_over_bad_width:
  "snd (main example_world 0 [''cmark'', ''--version'', ''--width'', ''abc'']) = Exit 0
   \<and> stderr_text (fst (main example_world 0 [''cmark'', ''--version'', ''--width'', ''abc'']))
     = []
   \<and> snd (strtol example_world ''abc'') = ''abc''"
  by code_simp

text \<open>
  C10. Line 75 is \<^verbatim>\<open>int i, numfps, numluafps = 0;\<close>: it initialises \<^verbatim>\<open>numluafps\<close>
  only, and the counter of FILE arguments starts with the value its storage holds.
  The run depends on that value: with the same arguments and the same files, a counter
  that starts at 0 makes the run read \<^verbatim>\<open>a.md\<close>, and one that starts at 1 makes line 171
  read a cell of \<^verbatim>\<open>files\<close> that was never written. (With 0 in it no run is undefined:
  \<open>no_undefined_behaviour_when_numfps_starts_at_0\<close>.)
\<close>

theorem numfps_starts_with_garbage:
  "numfps (initial_locals w garbage argv) = garbage
   \<and> fed (fst (main example_world 0 [''cmark'', ''a.md''])) = [''# Hi\<newline>'']
   \<and> snd (main example_world 0 [''cmark'', ''a.md'']) = Exit 0
   \<and> main example_world 1 [''cmark'', ''a.md''] = ([Cmark_parser_new 0], Undefined)"
proof -
  have "numfps (initial_locals w garbage argv) = garbage"
    by (simp add: initial_locals_def)
  moreover have "fed (fst (main example_world 0 [''cmark'', ''a.md''])) = [''# Hi\<newline>'']
     \<and> snd (main example_world 0 [''cmark'', ''a.md'']) = Exit 0
     \<and> main example_world 1 [''cmark'', ''a.md''] = ([Cmark_parser_new 0], Undefined)"
    by code_simp
  ultimately show ?thesis by simp
qed

text \<open>
  C7. The chunks are as stated (\<open>feed_stream_chunks\<close>) and every chunk is fed before
  \<^verbatim>\<open>cmark_parser_finish\<close> (\<open>feeds_precede_finish\<close>); the files read are the FILE
  arguments, in order, and standard input when there is none, provided the counter
  \<^verbatim>\<open>numfps\<close> starts at 0 (\<open>input_protocol_when_numfps_starts_at_0\<close>). The code does
  not make it start at 0. With no FILE argument and a counter that starts below 0, the
  loop of line 170 does not run and the test of line 190 fails: standard input is
  never read, nothing is fed to the parser, and the empty document is rendered.
\<close>

theorem stdin_not_read_when_numfps_starts_negative:
  "stdin example_world = ''from stdin\<newline>''
   \<and> main example_world (- 1) [''cmark'']
     = ([Cmark_parser_new 0, Cmark_parser_finish [], Cmark_parser_free,
         Cmark_render_html [] 0, Stdout ''<p></p>'', Free_result,
         Cmark_node_free [], Free_files, Free_luafiles],
        Exit 0)
   \<and> fed (fst (main example_world (- 1) [''cmark''])) = []"
  by code_simp

end
